theory Spec2Isabelle
  imports Complex_Main
begin

section \<open>Errors, panics and the run group\<close>

text \<open>
  A Go \<open>error\<close> value. \<open>nil\<close> is \<open>None\<close> of \<open>go_error option\<close>.
  \<open>UrlError op url err\<close> is \<open>&url.Error{Op, URL, Err}\<close>.
\<close>

datatype go_error = Error string | UrlError string string go_error

text \<open>
  How the process can die without reaching \<open>os.Exit\<close>: a panic on the main goroutine
  (deferred calls of \<open>main\<close> run while it unwinds), a panic on another goroutine (they do
  not), or an operating-system signal nobody subscribed to.
\<close>

datatype signal = SIGHUP | SIGINT | SIGQUIT | SIGTERM

datatype crash = PanicMain string | PanicGoroutine string | Killed signal

text \<open>
  One scheduling step of an actor's blocking \<open>run\<close> function over the variables its
  closure captures (the world \<open>'w\<close>): it cannot move, it moves on, it returns an error
  value, or it panics. \<open>interrupt\<close> runs to its end on the caller's goroutine: \<open>Inr\<close> the
  world it leaves, \<open>Inl\<close> the panic message and the world at the panic.
\<close>

datatype 'w progress = Blocked | Continue 'w | Return 'w "go_error option" | Panics 'w string

record 'w actor =
  execute :: "'w \<Rightarrow> 'w progress"
  interrupt :: "go_error option \<Rightarrow> 'w \<Rightarrow> (string \<times> 'w) + 'w"

text \<open>
  Modelled from the spec: \<open>run.Group\<close> (package \<open>github.com/oklog/run\<close>, imported at
  \<open>main.go:18\<close>, used at \<open>main.go:122-154\<close>) is not among the sources. Section 4.1 of the
  specification describes \<open>Run\<close>: every actor's \<open>run\<close> is started concurrently; a
  completion channel of capacity at least the number of actors carries
  \<open>(actorIndex, err)\<close>; on the first completion \<open>interrupt(err)\<close> is called on every
  registered actor in registration order; then the remaining completions are received and
  discarded; the first completion's error is returned.

  The coordinator is sequential, so its position is a program counter. Concurrency is a
  list of scheduler choices: which goroutine moves next, or what the environment does.
\<close>

datatype opc =
    WaitFirst
  | FanOut nat "go_error option"
  | Drain nat "go_error option"
  | Returned "go_error option"

record 'w group_state =
  world :: 'w
  finished :: "bool list"
  errors :: "(nat \<times> go_error option) list"
  pc :: opc
  completed :: "(nat \<times> go_error option) list"
  interrupted :: "(nat \<times> go_error option) list"
  crashed :: "crash option"

datatype 'x choice = Actor nat | Orchestrator | Environment 'x

text \<open>
  Actor \<open>i\<close>'s goroutine: \<open>errors <- a.execute()\<close>. The send cannot block: the channel's
  capacity is the number of actors and each actor sends once (\<open>errors_within_capacity\<close>
  below). \<open>completed\<close> is the history of all sends, in arrival order.
\<close>

definition actor_step :: "'w actor list \<Rightarrow> nat \<Rightarrow> 'w group_state \<Rightarrow> 'w group_state" where
  "actor_step as i s =
     (if i < length as \<and> i < length (finished s) \<and> \<not> finished s ! i then
        (case execute (as ! i) (world s) of
           Blocked \<Rightarrow> s
         | Continue w \<Rightarrow> s\<lparr>world := w\<rparr>
         | Return w e \<Rightarrow>
             s\<lparr>world := w, finished := (finished s)[i := True],
               errors := errors s @ [(i, e)], completed := completed s @ [(i, e)]\<rparr>
         | Panics w m \<Rightarrow> s\<lparr>world := w, crashed := Some (PanicGoroutine m)\<rparr>)
      else s)"

text \<open>
  The coordinator, which runs on the goroutine that called \<open>Run\<close>: wait for the first
  completion, call every actor's interrupt with its error, receive one completion for each
  remaining actor, return the first error.
\<close>

definition orchestrator_step :: "'w actor list \<Rightarrow> 'w group_state \<Rightarrow> 'w group_state" where
  "orchestrator_step as s =
     (case pc s of
        WaitFirst \<Rightarrow>
          (case errors s of
             [] \<Rightarrow> s
           | c # rest \<Rightarrow> s\<lparr>errors := rest, pc := FanOut 0 (snd c)\<rparr>)
      | FanOut k e \<Rightarrow>
          (if k < length as then
             (case interrupt (as ! k) e (world s) of
                Inl (m, w) \<Rightarrow>
                  s\<lparr>world := w, interrupted := interrupted s @ [(k, e)],
                    crashed := Some (PanicMain m)\<rparr>
              | Inr w \<Rightarrow>
                  s\<lparr>world := w, interrupted := interrupted s @ [(k, e)], pc := FanOut (Suc k) e\<rparr>)
           else s\<lparr>pc := Drain 1 e\<rparr>)
      | Drain k e \<Rightarrow>
          (if k < length as then
             (case errors s of
                [] \<Rightarrow> s
              | c # rest \<Rightarrow> s\<lparr>errors := rest, pc := Drain (Suc k) e\<rparr>)
           else s\<lparr>pc := Returned e\<rparr>)
      | Returned e \<Rightarrow> s)"

definition environment_step ::
  "('x \<Rightarrow> 'w \<Rightarrow> crash + 'w) \<Rightarrow> 'x \<Rightarrow> 'w group_state \<Rightarrow> 'w group_state" where
  "environment_step env x s =
     (case env x (world s) of
        Inl c \<Rightarrow> s\<lparr>crashed := Some c\<rparr>
      | Inr w \<Rightarrow> s\<lparr>world := w\<rparr>)"

text \<open>A crashed process makes no further step; neither does one whose \<open>Run\<close> has returned
  (what follows the return is \<open>main\<close>'s business, below).\<close>

definition step ::
  "'w actor list \<Rightarrow> ('x \<Rightarrow> 'w \<Rightarrow> crash + 'w) \<Rightarrow> 'x choice \<Rightarrow> 'w group_state \<Rightarrow> 'w group_state" where
  "step as env c s =
     (if crashed s \<noteq> None then s
      else case pc s of
        Returned e \<Rightarrow> s
      | _ \<Rightarrow>
        (case c of
           Actor i \<Rightarrow> actor_step as i s
         | Orchestrator \<Rightarrow> orchestrator_step as s
         | Environment x \<Rightarrow> environment_step env x s))"

fun exec ::
  "'w actor list \<Rightarrow> ('x \<Rightarrow> 'w \<Rightarrow> crash + 'w) \<Rightarrow> 'x choice list \<Rightarrow> 'w group_state \<Rightarrow> 'w group_state" where
  "exec as env [] s = s"
| "exec as env (c # cs) s = exec as env cs (step as env c s)"

definition Run_init :: "'w actor list \<Rightarrow> 'w \<Rightarrow> 'w group_state" where
  "Run_init as w =
     \<lparr>world = w, finished = replicate (length as) False, errors = [], pc = WaitFirst,
      completed = [], interrupted = [], crashed = None\<rparr>"

definition Run ::
  "'w actor list \<Rightarrow> ('x \<Rightarrow> 'w \<Rightarrow> crash + 'w) \<Rightarrow> 'x choice list \<Rightarrow> 'w \<Rightarrow> 'w group_state" where
  "Run as env sched w = exec as env sched (Run_init as w)"

text \<open>How many completions the coordinator has received at each program point of a group of
  \<open>n\<close> actors, and the error it holds from the first one.\<close>

fun received :: "nat \<Rightarrow> opc \<Rightarrow> nat" where
  "received n WaitFirst = 0"
| "received n (FanOut k e) = 1"
| "received n (Drain k e) = k"
| "received n (Returned e) = max 1 n"

fun first_error :: "opc \<Rightarrow> go_error option option" where
  "first_error WaitFirst = None"
| "first_error (FanOut k e) = Some e"
| "first_error (Drain k e) = Some e"
| "first_error (Returned e) = Some e"

section \<open>Channels and signals\<close>

text \<open>
  A Go channel of capacity \<open>ch_cap\<close>: \<open>make(chan T, n)\<close>, \<open>close(c)\<close> (closing twice
  panics), \<open><-c\<close> (the oldest buffered value; on a closed and drained channel the zero value,
  at once; otherwise the receiver blocks, which is \<open>None\<close>), and the non-blocking send
  \<open>select { case c <- x: default: }\<close> by which package \<open>os/signal\<close> relays a signal (the
  value is dropped when the buffer is full; sending on a closed channel panics).
\<close>

record 'a chan =
  ch_cap :: nat
  ch_buf :: "'a list"
  ch_closed :: bool

definition make_chan :: "nat \<Rightarrow> 'a chan" where
  "make_chan n = \<lparr>ch_cap = n, ch_buf = [], ch_closed = False\<rparr>"

definition chan_close :: "'a chan \<Rightarrow> string + 'a chan" where
  "chan_close c =
     (if ch_closed c then Inl ''close of closed channel'' else Inr (c\<lparr>ch_closed := True\<rparr>))"

definition chan_recv :: "'a chan \<Rightarrow> ('a option \<times> 'a chan) option" where
  "chan_recv c =
     (case ch_buf c of
        x # xs \<Rightarrow> Some (Some x, c\<lparr>ch_buf := xs\<rparr>)
      | [] \<Rightarrow> if ch_closed c then Some (None, c) else None)"

definition chan_try_send :: "'a \<Rightarrow> 'a chan \<Rightarrow> string + 'a chan" where
  "chan_try_send x c =
     (if ch_closed c then Inl ''send on closed channel''
      else if length (ch_buf c) < ch_cap c then Inr (c\<lparr>ch_buf := ch_buf c @ [x]\<rparr>)
      else Inr c)"

abbreviation os_Interrupt :: signal where
  "os_Interrupt \<equiv> SIGINT"

section \<open>What the process does: the trace\<close>

datatype level = LevelDebug | LevelInfo | LevelError

datatype url = URL string

type_synonym duration = int

record server_config =
  cfg_listen :: string
  cfg_gracePeriod :: duration
  cfg_profile :: bool
  cfg_metricQueryEndpoint :: url
  cfg_metricWriteEndpoint :: url
  cfg_bufferCount :: int
  cfg_bufferSizeBytes :: int

datatype event =
    SetMutexProfileFraction int
  | SetBlockProfileRate int
  | NewLogger string string string
  | Log level string "go_error option"
  | NewTracer string string real
  | TracerClose
  | SetTraceProvider
  | MaxprocsSet
  | MaxprocsUndo
  | MustRegister
  | MakeChan nat
  | GroupAdd
  | ServerNew server_config
  | GroupRun
  | Notify "signal set"
  | Signalled signal

section \<open>The signal watcher (main.go:123-134)\<close>

text \<open>
  The variables the two closures of the first actor share, and those of the second: the
  channel \<open>sig\<close>, the signals package \<open>os/signal\<close> relays to it, where \<open>run\<close> stands
  (before \<open>signal.Notify\<close>, or at \<open><-sig\<close>), the server \<open>srv\<close>, and the trace.
\<close>

datatype watcher_pc = Subscribing | Receiving

record 'srv world =
  sig :: "signal chan"
  handlers :: "signal set"
  watcher_pc :: watcher_pc
  srv :: 'srv
  trace :: "event list"

definition watcher_execute :: "'srv world \<Rightarrow> 'srv world progress" where
  "watcher_execute w =
     (case watcher_pc w of
        Subscribing \<Rightarrow>
          Continue (w\<lparr>handlers := handlers w \<union> {os_Interrupt, SIGTERM},
                      watcher_pc := Receiving,
                      trace := trace w @ [Notify {os_Interrupt, SIGTERM}]\<rparr>)
      | Receiving \<Rightarrow>
          (case chan_recv (sig w) of
             None \<Rightarrow> Blocked
           | Some (v, c) \<Rightarrow> Return (w\<lparr>sig := c\<rparr>) None))"

definition watcher_interrupt :: "go_error option \<Rightarrow> 'srv world \<Rightarrow> (string \<times> 'srv world) + 'srv world" where
  "watcher_interrupt e w =
     (let w = w\<lparr>trace := trace w @ [Log LevelInfo ''caught interrupt'' None]\<rparr>
      in case chan_close (sig w) of
           Inl m \<Rightarrow> Inl (m, w)
         | Inr c \<Rightarrow> Inr (w\<lparr>sig := c\<rparr>))"

definition signal_watcher :: "'srv world actor" where
  "signal_watcher = \<lparr>execute = watcher_execute, interrupt = watcher_interrupt\<rparr>"

text \<open>
  The environment: the operating system sends the process a signal. Package \<open>os/signal\<close>
  relays a subscribed signal to the channel without blocking; a signal nobody subscribed to
  keeps its default disposition, which for the four signals of type \<open>signal\<close> ends the
  process.
\<close>

definition deliver :: "signal \<Rightarrow> 'srv world \<Rightarrow> crash + 'srv world" where
  "deliver sg w =
     (if sg \<in> handlers w then
        (case chan_try_send sg (sig w) of
           Inl m \<Rightarrow> Inl (PanicGoroutine m)
         | Inr c \<Rightarrow> Inr (w\<lparr>sig := c, trace := trace w @ [Signalled sg]\<rparr>))
      else Inl (Killed sg))"

section \<open>The server actor (main.go:135-150)\<close>

text \<open>
  Package \<open>internal/server\<close> is not among the sources: \<open>server.New\<close>,
  \<open>srv.ListenAndServe\<close> and \<open>srv.Shutdown\<close> are parameters. Whatever they do, they act
  on the server only: the closures of the signal watcher are the only code in scope of
  \<open>sig\<close>.
\<close>

record 'srv server_impl =
  server_New :: "server_config \<Rightarrow> 'srv"
  ListenAndServe :: "'srv \<Rightarrow> 'srv progress"
  Shutdown :: "go_error option \<Rightarrow> 'srv \<Rightarrow> (string \<times> 'srv) + 'srv"

definition server_execute :: "'srv server_impl \<Rightarrow> 'srv world \<Rightarrow> 'srv world progress" where
  "server_execute impl w =
     (case ListenAndServe impl (srv w) of
        Blocked \<Rightarrow> Blocked
      | Continue s \<Rightarrow> Continue (w\<lparr>srv := s\<rparr>)
      | Return s e \<Rightarrow> Return (w\<lparr>srv := s\<rparr>) e
      | Panics s m \<Rightarrow> Panics (w\<lparr>srv := s\<rparr>) m)"

definition server_interrupt ::
  "'srv server_impl \<Rightarrow> go_error option \<Rightarrow> 'srv world \<Rightarrow> (string \<times> 'srv world) + 'srv world" where
  "server_interrupt impl e w =
     (case Shutdown impl e (srv w) of
        Inl (m, s) \<Rightarrow> Inl (m, w\<lparr>srv := s\<rparr>)
      | Inr s \<Rightarrow> Inr (w\<lparr>srv := s\<rparr>))"

definition server_actor :: "'srv server_impl \<Rightarrow> 'srv world actor" where
  "server_actor impl = \<lparr>execute = server_execute impl, interrupt = server_interrupt impl\<rparr>"

text \<open>The group as \<open>main\<close> builds it: \<open>g.Add\<close> of the signal watcher, then of the server.\<close>

definition program_group :: "'srv server_impl \<Rightarrow> 'srv world actor list" where
  "program_group impl = [signal_watcher, server_actor impl]"

definition initial_world :: "'srv \<Rightarrow> event list \<Rightarrow> 'srv world" where
  "initial_world s t =
     \<lparr>sig = make_chan 1, handlers = {}, watcher_pc = Subscribing, srv = s, trace = t\<rparr>"

section \<open>main (main.go:44-160)\<close>

record options =
  debugMutexProfileFraction :: int
  debugBlockProfileRate :: int
  proxyBufferSizeBytes :: int
  proxyBufferCount :: int
  listen :: string
  gracePeriod :: string
  debugName :: string
  logLevel :: string
  logFormat :: string
  metricsQueryEndpoint :: string
  metricsWriteEndpoint :: string
  traceExporter :: string
  traceExporterEndpoint :: string
  traceSamplerProbability :: real

text \<open>
  The constants of packages \<open>internal\<close> and \<open>internal/proxy\<close> that the flag defaults name
  are not among the sources: they are parameters.
\<close>

record package_constants =
  LogFormatLogfmt :: string
  DefaultBufferCount :: int
  DefaultBufferSizeBytes :: int
  ExporterJaeger :: string

text \<open>The value of \<open>opts\<close> after \<open>flag.Parse()\<close> when no flag is given (main.go:47-66).\<close>

definition default_options :: "package_constants \<Rightarrow> options" where
  "default_options k =
     \<lparr>debugMutexProfileFraction = 10,
      debugBlockProfileRate = 10,
      proxyBufferSizeBytes = DefaultBufferSizeBytes k,
      proxyBufferCount = DefaultBufferCount k,
      listen = '':8080'',
      gracePeriod = ''5s'',
      debugName = ''observatorium'',
      logLevel = ''info'',
      logFormat = LogFormatLogfmt k,
      metricsQueryEndpoint = [],
      metricsWriteEndpoint = [],
      traceExporter = ExporterJaeger k,
      traceExporterEndpoint = ExporterJaeger k,
      traceSamplerProbability = 0.1\<rparr>"

text \<open>
  \<open>url.ParseRequestURI\<close> is Go's standard library (\<open>net/url\<close>). It calls
  \<open>parse(rawURL, true)\<close>, which first rejects a string with an ASCII control byte
  (\<open>b < ' ' || b == 0x7f\<close>), then the empty string (\<open>"empty url"\<close>), and wraps any error as
  \<open>&url.Error{"parse", rawURL, err}\<close>. The rest of the parser is the parameter
  \<open>parse_rest\<close>.
\<close>

definition stringContainsCTLByte :: "string \<Rightarrow> bool" where
  "stringContainsCTLByte s = list_ex (\<lambda>b. (of_char b :: nat) < 32 \<or> (of_char b :: nat) = 127) s"

definition ParseRequestURI :: "(string \<Rightarrow> go_error + url) \<Rightarrow> string \<Rightarrow> go_error + url" where
  "ParseRequestURI parse_rest rawURL =
     (case (if stringContainsCTLByte rawURL
            then Inl (Error ''net/url: invalid control character in URL'')
            else if rawURL = [] then Inl (Error ''empty url'')
            else parse_rest rawURL) of
        Inl err \<Rightarrow> Inl (UrlError ''parse'' rawURL err)
      | Inr u \<Rightarrow> Inr u)"

text \<open>
  What \<open>main\<close> takes from outside the sources: the rest of the URL parser,
  \<open>time.ParseDuration\<close>, the server, and of package \<open>maxprocs\<close> the error of
  \<open>maxprocs.Set\<close> and the lines that \<open>Set\<close> and the \<open>undo\<close> it returns write through the
  logger they are given.
\<close>

record 'srv deps =
  parse_rest :: "string \<Rightarrow> go_error + url"
  ParseDuration :: "string \<Rightarrow> go_error + duration"
  maxprocs_Set :: "go_error option"
  maxprocs_Set_log :: "string list"
  undo_log :: "string list"
  server :: "'srv server_impl"

text \<open>
  The main goroutine: what it has done so far and the calls it has deferred, the latest
  first. Returning from \<open>main\<close> runs the deferred calls and ends the process with status 0;
  \<open>os.Exit\<close> ends it at once with the given status and runs no deferred call.
\<close>

record proc =
  out :: "event list"
  deferred :: "event list"

datatype exit_status = Exited nat | Died crash | StillRunning

record outcome =
  events :: "event list"
  status :: exit_status

definition emit :: "event \<Rightarrow> proc \<Rightarrow> proc" where
  "emit e p = p\<lparr>out := out p @ [e]\<rparr>"

definition defer_call :: "event \<Rightarrow> proc \<Rightarrow> proc" where
  "defer_call e p = p\<lparr>deferred := e # deferred p\<rparr>"

text \<open>
  main.go:102-104: \<open>loggerAdapter\<close>, the logger handed to \<open>maxprocs.Set\<close>. It logs the
  formatted line at debug level.
\<close>

definition loggerAdapter :: "string \<Rightarrow> event" where
  "loggerAdapter line = Log LevelDebug line None"

text \<open>\<open>defer undo()\<close> (main.go:113): the call, and the lines it logs when it runs.\<close>

definition defer_undo :: "string list \<Rightarrow> proc \<Rightarrow> proc" where
  "defer_undo lines p =
     p\<lparr>deferred := (MaxprocsUndo # map loggerAdapter lines) @ deferred p\<rparr>"

definition return_main :: "proc \<Rightarrow> outcome" where
  "return_main p = \<lparr>events = out p @ deferred p, status = Exited 0\<rparr>"

definition os_Exit :: "nat \<Rightarrow> proc \<Rightarrow> outcome" where
  "os_Exit code p = \<lparr>events = out p, status = Exited code\<rparr>"

text \<open>
  main.go:102-159, reached when the three configuration values parsed. \<open>g.Run()\<close> is the
  run of the group under the schedule \<open>sched\<close>. A schedule that ends before \<open>Run\<close> returns
  leaves the process running; a panic on the main goroutine unwinds through the deferred
  calls; any other crash ends the process where it stands.
\<close>

definition main_serve ::
  "'srv deps \<Rightarrow> options \<Rightarrow> (string \<Rightarrow> string) \<Rightarrow> signal choice list \<Rightarrow> proc \<Rightarrow> url \<Rightarrow> url \<Rightarrow>
   duration \<Rightarrow> outcome" where
  "main_serve d opts getenv sched p0 metricsQueryURL metricsWriteURL grace =
     (let p = emit MaxprocsSet p0;
          p = p\<lparr>out := out p @ map loggerAdapter (maxprocs_Set_log d)\<rparr>;
          p = (case maxprocs_Set d of
                 Some err \<Rightarrow> emit (Log LevelError ''failed to set GOMAXPROCS:'' (Some err)) p
               | None \<Rightarrow> p);
          p = defer_undo (undo_log d) p;
          p = emit MustRegister p;
          p = emit (MakeChan 1) p;
          p = emit GroupAdd p;
          cfg = \<lparr>cfg_listen = listen opts,
                 cfg_gracePeriod = grace,
                 cfg_profile = (getenv ''PROFILE'' \<noteq> []),
                 cfg_metricQueryEndpoint = metricsQueryURL,
                 cfg_metricWriteEndpoint = metricsWriteURL,
                 cfg_bufferCount = proxyBufferCount opts,
                 cfg_bufferSizeBytes = proxyBufferSizeBytes opts\<rparr>;
          p = emit (ServerNew cfg) p;
          p = emit GroupAdd p;
          p = emit (Log LevelInfo ''starting observatorium'' None) p;
          p = emit GroupRun p;
          s = Run (program_group (server d)) deliver sched
                (initial_world (server_New (server d) cfg) (out p));
          p = p\<lparr>out := trace (world s)\<rparr>
      in case crashed s of
           Some (PanicMain m) \<Rightarrow> \<lparr>events = out p @ deferred p, status = Died (PanicMain m)\<rparr>
         | Some c \<Rightarrow> \<lparr>events = out p, status = Died c\<rparr>
         | None \<Rightarrow>
             (case pc s of
                Returned (Some err) \<Rightarrow>
                  os_Exit 1 (emit (Log LevelError ''observatorium failed'' (Some err)) p)
              | Returned None \<Rightarrow> os_Exit 0 p
              | _ \<Rightarrow> \<lparr>events = out p, status = StillRunning\<rparr>))"

text \<open>main.go:44-100: flags (already parsed into \<open>opts\<close>), logger, tracer, validation.\<close>

definition main ::
  "'srv deps \<Rightarrow> options \<Rightarrow> (string \<Rightarrow> string) \<Rightarrow> signal choice list \<Rightarrow> outcome" where
  "main d opts getenv sched =
     (let debug = (getenv ''DEBUG'' \<noteq> []);
          p = \<lparr>out = [], deferred = []\<rparr>;
          p = (if debug
               then emit (SetBlockProfileRate (debugBlockProfileRate opts))
                      (emit (SetMutexProfileFraction (debugMutexProfileFraction opts)) p)
               else p);
          p = emit (NewLogger (logLevel opts) (logFormat opts) (debugName opts)) p;
          p = defer_call (Log LevelInfo ''exiting'' None) p;
          p = emit (NewTracer (traceExporter opts) (traceExporterEndpoint opts)
                      (traceSamplerProbability opts)) p;
          p = defer_call TracerClose p;
          p = emit SetTraceProvider p
      in case ParseRequestURI (parse_rest d) (metricsQueryEndpoint opts) of
           Inl err \<Rightarrow>
             return_main (emit (Log LevelError ''--metrics.query.endpoint is invalid'' (Some err)) p)
         | Inr metricsQueryURL \<Rightarrow>
       (case ParseRequestURI (parse_rest d) (metricsWriteEndpoint opts) of
           Inl err \<Rightarrow>
             return_main (emit (Log LevelError ''--metrics.write.endpoint is invalid'' (Some err)) p)
         | Inr metricsWriteURL \<Rightarrow>
       (case ParseDuration d (gracePeriod opts) of
           Inl err \<Rightarrow>
             return_main (emit (Log LevelError ''--grace-period is invalid'' (Some err)) p)
         | Inr grace \<Rightarrow>
             main_serve d opts getenv sched p metricsQueryURL metricsWriteURL grace)))"

section \<open>Stand-ins for worked examples\<close>

text \<open>
  Values for the parameters in the examples below, which use them on these inputs only: a
  server that serves until it is shut down (or fails to bind with the given error); a
  rest of the URL parser that accepts its argument (the examples pass absolute
  \<open>http\<close> URLs); a duration parser that knows the default \<open>"5s"\<close>, five seconds in
  nanoseconds, and rejects anything else as Go rejects \<open>"soon"\<close>; and a \<open>maxprocs\<close> that
  finds no CPU quota, with the lines it then writes as \<open>loggerAdapter\<close> formats them
  (\<open>fmt.Sprintf(template, args)\<close> prints the argument slice as one value).
\<close>

definition example_server :: "go_error option \<Rightarrow> bool server_impl" where
  "example_server bind_error =
     \<lparr>server_New = (\<lambda>cfg. False),
      ListenAndServe = (\<lambda>s. case bind_error of
                              Some e \<Rightarrow> Return s (Some e)
                            | None \<Rightarrow> if s then Return s None else Blocked),
      Shutdown = (\<lambda>e s. Inr True)\<rparr>"

definition example_deps :: "go_error option \<Rightarrow> bool deps" where
  "example_deps bind_error =
     \<lparr>parse_rest = (\<lambda>s. Inr (URL s)),
      ParseDuration = (\<lambda>s. if s = ''5s'' then Inr 5000000000
                            else Inl (Error (''time: invalid duration '' @
                                             [CHR 0x22] @ s @ [CHR 0x22]))),
      maxprocs_Set = None,
      maxprocs_Set_log = [''maxprocs: Leaving GOMAXPROCS=[4]: CPU quota undefined''],
      undo_log = [''maxprocs: No GOMAXPROCS change to reset%!(EXTRA []interface {}=[])''],
      server = example_server bind_error\<rparr>"

definition example_constants :: package_constants where
  "example_constants =
     \<lparr>LogFormatLogfmt = ''logfmt'', DefaultBufferCount = 2048,
      DefaultBufferSizeBytes = 32768, ExporterJaeger = ''jaeger''\<rparr>"

definition example_options :: options where
  "example_options =
     (default_options example_constants)
       \<lparr>metricsQueryEndpoint := ''http://localhost:9091/api/v1/query'',
        metricsWriteEndpoint := ''http://localhost:19291/api/v1/receive''\<rparr>"

definition no_env :: "string \<Rightarrow> string" where
  "no_env name = []"

section \<open>Invariants of the run group, and a worked example\<close>

definition chan_inv :: "nat \<Rightarrow> 'w group_state \<Rightarrow> bool" where
  "chan_inv n s \<longleftrightarrow>
     errors s = drop (received n (pc s)) (completed s) \<and>
     received n (pc s) \<le> length (completed s) \<and>
     (\<forall>k e. pc s = Drain k e \<longrightarrow> 1 \<le> k \<and> k \<le> max 1 n) \<and>
     (pc s \<noteq> WaitFirst \<longrightarrow> completed s \<noteq> [] \<and> first_error (pc s) = Some (snd (hd (completed s))))"

definition done_inv :: "nat \<Rightarrow> 'w group_state \<Rightarrow> bool" where
  "done_inv n s \<longleftrightarrow>
     length (finished s) = n \<and> distinct (map fst (completed s)) \<and>
     fst ` set (completed s) = {i. i < n \<and> finished s ! i}"

text \<open>
  What it means that the interrupts of a group leave marks in the world: a call of actor
  \<open>j\<close>'s interrupt with the cause \<open>e\<close> that returns leaves a world in which \<open>Q j e\<close>
  holds, and no later move of any \<open>run\<close>, of the environment, or of another actor's
  interrupt takes a mark away.
\<close>

definition interrupts_leave_marks ::
  "'w actor list \<Rightarrow> ('x \<Rightarrow> 'w \<Rightarrow> crash + 'w) \<Rightarrow> (nat \<Rightarrow> go_error option \<Rightarrow> 'w \<Rightarrow> bool) \<Rightarrow> bool" where
  "interrupts_leave_marks as env Q \<longleftrightarrow>
     (\<forall>j e w w'. j < length as \<and> interrupt (as ! j) e w = Inr w' \<longrightarrow>
        Q j e w' \<and> (\<forall>i e'. i \<noteq> j \<and> Q i e' w \<longrightarrow> Q i e' w')) \<and>
     (\<forall>j w w' i e. j < length as \<and> Q i e w \<and>
        (execute (as ! j) w = Continue w' \<or> (\<exists>r. execute (as ! j) w = Return w' r)) \<longrightarrow>
        Q i e w') \<and>
     (\<forall>x w w' i e. Q i e w \<and> env x w = Inr w' \<longrightarrow> Q i e w')"

text \<open>The calls \<open>interrupt(e)\<close> on every actor of the group, in registration order.\<close>

fun interrupt_all :: "'w actor list \<Rightarrow> go_error option \<Rightarrow> 'w \<Rightarrow> (string \<times> 'w) + 'w" where
  "interrupt_all [] e w = Inr w"
| "interrupt_all (a # as) e w =
     (case interrupt a e w of Inl x \<Rightarrow> Inl x | Inr w' \<Rightarrow> interrupt_all as e w')"

text \<open>
  The marks at each program point of the coordinator: during the fan-out those of the
  actors already interrupted, afterwards those of all.
\<close>

definition mark_inv ::
  "nat \<Rightarrow> (nat \<Rightarrow> go_error option \<Rightarrow> 'w \<Rightarrow> bool) \<Rightarrow> 'w group_state \<Rightarrow> bool" where
  "mark_inv n Q s \<longleftrightarrow>
     (case pc s of
        WaitFirst \<Rightarrow> True
      | FanOut k e \<Rightarrow> crashed s = None \<longrightarrow> (\<forall>i<k. Q i e (world s))
      | Drain k e \<Rightarrow> crashed s = None \<longrightarrow> (\<forall>i<n. Q i e (world s))
      | Returned e \<Rightarrow> crashed s = None \<and> (\<forall>i<n. Q i e (world s)))"

definition ret_inv :: "'w actor list \<Rightarrow> 'w group_state \<Rightarrow> bool" where
  "ret_inv as s \<longleftrightarrow>
     (\<forall>c \<in> set (completed s). fst c < length as \<and> (\<exists>w0 w1. execute (as ! fst c) w0 = Return w1 (snd c)))"

text \<open>
  A group of three actors over an empty world, each returning its own error at once, and
  the schedule on which they finish in the reverse of their registration order.
\<close>

definition example_actor :: "go_error option \<Rightarrow> unit actor" where
  "example_actor r = \<lparr>execute = (\<lambda>w. Return w r), interrupt = (\<lambda>e w. Inr w)\<rparr>"

definition example_group :: "unit actor list" where
  "example_group =
     [example_actor None, example_actor (Some (Error ''b'')), example_actor (Some (Error ''c''))]"

definition example_env :: "unit \<Rightarrow> unit \<Rightarrow> crash + unit" where
  "example_env x w = Inr w"

definition reverse_schedule :: "unit choice list" where
  "reverse_schedule =
     [Actor 2, Actor 1, Actor 0,
      Orchestrator, Orchestrator, Orchestrator, Orchestrator,
      Orchestrator, Orchestrator, Orchestrator, Orchestrator]"

text \<open>
  A group of three actors whose world is the list of the interrupt calls made so far,
  written by the interrupts themselves: the first two wait until they have been
  interrupted and then return nil, the third fails at once. On the schedule below the
  first two find nothing to do, the third fails, the coordinator interrupts all three, the
  first two return, and the coordinator receives their completions and returns.
\<close>

definition waiting_actor :: "nat \<Rightarrow> go_error option \<Rightarrow> (nat \<times> go_error option) list actor" where
  "waiting_actor i r =
     \<lparr>execute = (\<lambda>w. case r of
                        Some err \<Rightarrow> Return w (Some err)
                      | None \<Rightarrow> if list_ex (\<lambda>c. fst c = i) w then Return w None else Blocked),
      interrupt = (\<lambda>e w. Inr (w @ [(i, e)]))\<rparr>"

definition waiting_group :: "(nat \<times> go_error option) list actor list" where
  "waiting_group =
     [waiting_actor 0 None, waiting_actor 1 None, waiting_actor 2 (Some (Error ''c''))]"

definition quiet_env :: "unit \<Rightarrow> 'w \<Rightarrow> crash + 'w" where
  "quiet_env x w = Inr w"

definition called_with :: "nat \<Rightarrow> go_error option \<Rightarrow> (nat \<times> go_error option) list \<Rightarrow> bool" where
  "called_with i e w \<longleftrightarrow> (i, e) \<in> set w"

definition last_fails_schedule :: "unit choice list" where
  "last_fails_schedule =
     [Actor 0, Actor 1, Actor 2,
      Orchestrator, Orchestrator, Orchestrator, Orchestrator, Orchestrator,
      Actor 1, Actor 0,
      Orchestrator, Orchestrator, Orchestrator]"

text \<open>The state of that group when its third actor has failed and nothing else has moved.\<close>

definition first_done :: "(nat \<times> go_error option) list group_state" where
  "first_done =
     \<lparr>world = [], finished = [False, False, True], errors = [(2, Some (Error ''c''))],
      pc = WaitFirst, completed = [(2, Some (Error ''c''))], interrupted = [], crashed = None\<rparr>"

section \<open>Predicates on the program's trace and state\<close>

text \<open>The events the two closures of the signal watcher and the signal relay leave.\<close>

fun watcher_event :: "event \<Rightarrow> bool" where
  "watcher_event (Notify S) = (S = {os_Interrupt, SIGTERM})"
| "watcher_event (Signalled sg) = True"
| "watcher_event (Log lv msg err) = (lv = LevelInfo \<and> msg = ''caught interrupt'' \<and> err = None)"
| "watcher_event ev = False"

fun is_error_log :: "event \<Rightarrow> bool" where
  "is_error_log (Log lv msg err) = (lv = LevelError)"
| "is_error_log ev = False"

fun is_Notify :: "event \<Rightarrow> bool" where
  "is_Notify (Notify S) = True"
| "is_Notify ev = False"

fun is_Signalled :: "event \<Rightarrow> bool" where
  "is_Signalled (Signalled sg) = True"
| "is_Signalled ev = False"

text \<open>Two calls of an actor's interrupt in a row, the second on the world the first left.\<close>

definition interrupt_twice :: "'w actor \<Rightarrow> go_error option \<Rightarrow> 'w \<Rightarrow> (string \<times> 'w) + 'w" where
  "interrupt_twice a e w = (case interrupt a e w of Inl x \<Rightarrow> Inl x | Inr w' \<Rightarrow> interrupt a e w')"

text \<open>
  What holds of the channel and the subscription at every moment of the program: the
  capacity is the one \<open>make\<close> gave it, and the subscription is absent before
  \<open>signal.Notify\<close> and is to SIGINT and SIGTERM after it.
\<close>

definition sig_inv :: "'srv world \<Rightarrow> bool" where
  "sig_inv w \<longleftrightarrow>
     ch_cap (sig w) = 1 \<and>
     (case watcher_pc w of
        Subscribing \<Rightarrow> handlers w = {} \<and> ch_buf (sig w) = []
      | Receiving \<Rightarrow> handlers w = {os_Interrupt, SIGTERM})"

definition trace_inv :: "event list \<Rightarrow> 'srv world \<Rightarrow> bool" where
  "trace_inv t0 w \<longleftrightarrow> (\<exists>ext. trace w = t0 @ ext \<and> list_all watcher_event ext)"

text \<open>
  How the signal watcher's \<open>run\<close> can have returned: a signal was relayed after the start,
  or the channel was closed, which only its interrupt does.
\<close>

definition unblock_inv :: "nat \<Rightarrow> 'srv world group_state \<Rightarrow> bool" where
  "unblock_inv n s \<longleftrightarrow>
     n \<le> length (trace (world s)) \<and>
     (ch_buf (sig (world s)) \<noteq> [] \<longrightarrow> list_ex is_Signalled (drop n (trace (world s)))) \<and>
     (ch_closed (sig (world s)) \<longrightarrow> list_ex (\<lambda>c. fst c = 0) (interrupted s)) \<and>
     (0 < length (finished s) \<and> finished s ! 0 \<longrightarrow>
        list_ex is_Signalled (drop n (trace (world s))) \<or> ch_closed (sig (world s)))"

section \<open>Worked examples of the program\<close>

text \<open>
  The signal watcher waiting at \<open><-sig\<close>; the same with a signal in the buffer; the same
  after its interrupt closed the channel.
\<close>

definition waiting_world :: "bool world" where
  "waiting_world =
     \<lparr>sig = make_chan 1, handlers = {os_Interrupt, SIGTERM}, watcher_pc = Receiving,
      srv = False, trace = []\<rparr>"

definition signalled_world :: "bool world" where
  "signalled_world = waiting_world\<lparr>sig := \<lparr>ch_cap = 1, ch_buf = [SIGTERM], ch_closed = False\<rparr>\<rparr>"

definition closed_world :: "bool world" where
  "closed_world = waiting_world\<lparr>sig := \<lparr>ch_cap = 1, ch_buf = [], ch_closed = True\<rparr>\<rparr>"

text \<open>
  Two schedules of the program. On the first the watcher subscribes, SIGINT arrives, the
  watcher returns, the coordinator interrupts both actors, the server returns and \<open>Run\<close>
  returns. On the second the server fails at once, the coordinator interrupts both actors,
  and the watcher subscribes and finds its channel closed.
\<close>

definition signal_schedule :: "signal choice list" where
  "signal_schedule =
     [Actor 0, Environment SIGINT, Actor 0,
      Orchestrator, Orchestrator, Orchestrator, Orchestrator,
      Actor 1, Orchestrator, Orchestrator]"

definition failure_schedule :: "signal choice list" where
  "failure_schedule =
     [Actor 1,
      Orchestrator, Orchestrator, Orchestrator, Orchestrator,
      Actor 0, Actor 0, Orchestrator, Orchestrator]"

definition bind_error :: go_error where
  "bind_error = Error ''listen tcp :8080: bind: address already in use''"

section \<open>The events of main before the group runs\<close>

fun is_ServerNew :: "event \<Rightarrow> bool" where
  "is_ServerNew (ServerNew cfg) = True"
| "is_ServerNew ev = False"

text \<open>main.go:69-82: what \<open>main\<close> has done when it reaches the validation.\<close>

definition startup_events :: "options \<Rightarrow> (string \<Rightarrow> string) \<Rightarrow> event list" where
  "startup_events opts getenv =
     (if getenv ''DEBUG'' \<noteq> []
      then [SetMutexProfileFraction (debugMutexProfileFraction opts),
            SetBlockProfileRate (debugBlockProfileRate opts)]
      else []) @
     [NewLogger (logLevel opts) (logFormat opts) (debugName opts),
      NewTracer (traceExporter opts) (traceExporterEndpoint opts) (traceSamplerProbability opts),
      SetTraceProvider]"

text \<open>main.go:102-154: what it does from there until it calls \<open>g.Run()\<close>.\<close>

definition serve_config :: "options \<Rightarrow> (string \<Rightarrow> string) \<Rightarrow> url \<Rightarrow> url \<Rightarrow> duration \<Rightarrow> server_config" where
  "serve_config opts getenv metricsQueryURL metricsWriteURL grace =
     \<lparr>cfg_listen = listen opts,
      cfg_gracePeriod = grace,
      cfg_profile = (getenv ''PROFILE'' \<noteq> []),
      cfg_metricQueryEndpoint = metricsQueryURL,
      cfg_metricWriteEndpoint = metricsWriteURL,
      cfg_bufferCount = proxyBufferCount opts,
      cfg_bufferSizeBytes = proxyBufferSizeBytes opts\<rparr>"

definition serve_events ::
  "'srv deps \<Rightarrow> options \<Rightarrow> (string \<Rightarrow> string) \<Rightarrow> url \<Rightarrow> url \<Rightarrow> duration \<Rightarrow> event list" where
  "serve_events d opts getenv metricsQueryURL metricsWriteURL grace =
     [MaxprocsSet] @ map loggerAdapter (maxprocs_Set_log d) @
     (case maxprocs_Set d of
        Some err \<Rightarrow> [Log LevelError ''failed to set GOMAXPROCS:'' (Some err)]
      | None \<Rightarrow> []) @
     [MustRegister, MakeChan 1, GroupAdd,
      ServerNew (serve_config opts getenv metricsQueryURL metricsWriteURL grace),
      GroupAdd, Log LevelInfo ''starting observatorium'' None, GroupRun]"

text \<open>What the deferred \<open>undo()\<close> does when it runs.\<close>

definition undo_events :: "'srv deps \<Rightarrow> event list" where
  "undo_events d = MaxprocsUndo # map loggerAdapter (undo_log d)"

text \<open>The calls deferred by then, in the order in which a return would run them.\<close>

definition deferred_calls :: "event list" where
  "deferred_calls = [MaxprocsUndo, TracerClose, Log LevelInfo ''exiting'' None]"

section \<open>The run group: what holds when Run returns\<close>

lemma chan_inv_init: "chan_inv (length as) (Run_init as w)"
  by (simp add: chan_inv_def Run_init_def)

lemma chan_inv_actor_step: "chan_inv n s \<Longrightarrow> chan_inv n (actor_step as i s)"
  by (auto simp: chan_inv_def actor_step_def split: progress.splits)

lemma drop_eq_Cons: "drop k xs = c # rest \<Longrightarrow> drop (Suc k) xs = rest \<and> Suc k \<le> length xs"
  by (metis Cons_nth_drop_Suc Suc_leI drop_all list.distinct(1) list.inject not_le)

lemma chan_inv_orchestrator_step:
  assumes "chan_inv (length as) s"
  shows "chan_inv (length as) (orchestrator_step as s)"
proof (cases "pc s")
  case WaitFirst
  with assms show ?thesis
    by (auto simp: chan_inv_def orchestrator_step_def split: list.splits)
next
  case (FanOut k e)
  with assms show ?thesis
    by (auto simp: chan_inv_def orchestrator_step_def split: sum.splits prod.splits)
next
  case (Drain k e)
  show ?thesis
  proof (cases "k < length as")
    case True
    with Drain assms show ?thesis
      by (auto simp: chan_inv_def orchestrator_step_def split: list.splits dest: drop_eq_Cons)
  next
    case False
    with Drain assms have "max 1 (length as) = k"
      by (auto simp: chan_inv_def)
    with False Drain assms show ?thesis
      by (auto simp: chan_inv_def orchestrator_step_def)
  qed
next
  case (Returned e)
  with assms show ?thesis
    by (simp add: orchestrator_step_def)
qed

lemma chan_inv_environment_step: "chan_inv n s \<Longrightarrow> chan_inv n (environment_step env x s)"
  by (auto simp: chan_inv_def environment_step_def split: sum.splits prod.splits)

lemma chan_inv_step: "chan_inv (length as) s \<Longrightarrow> chan_inv (length as) (step as env c s)"
  by (simp add: step_def chan_inv_actor_step chan_inv_orchestrator_step chan_inv_environment_step
      split: opc.splits choice.splits)

lemma chan_inv_exec: "chan_inv (length as) s \<Longrightarrow> chan_inv (length as) (exec as env sched s)"
  by (induction sched arbitrary: s) (simp_all add: chan_inv_step)

lemma chan_inv_Run: "chan_inv (length as) (Run as env sched w)"
  by (simp add: Run_def chan_inv_exec chan_inv_init)

lemma done_inv_init: "done_inv (length as) (Run_init as w)"
  by (simp add: done_inv_def Run_init_def)

lemma done_inv_actor_step:
  assumes "done_inv (length as) s"
  shows "done_inv (length as) (actor_step as i s)"
proof (cases "i < length as \<and> i < length (finished s) \<and> \<not> finished s ! i")
  case False
  then have "actor_step as i s = s"
    unfolding actor_step_def by (rule if_not_P)
  with assms show ?thesis by simp
next
  case True
  then have unfold: "actor_step as i s =
      (case execute (as ! i) (world s) of
         Blocked \<Rightarrow> s
       | Continue w \<Rightarrow> s\<lparr>world := w\<rparr>
       | Return w e \<Rightarrow>
           s\<lparr>world := w, finished := (finished s)[i := True],
             errors := errors s @ [(i, e)], completed := completed s @ [(i, e)]\<rparr>
       | Panics w m \<Rightarrow> s\<lparr>world := w, crashed := Some (PanicGoroutine m)\<rparr>)"
    unfolding actor_step_def by (rule if_P)
  show ?thesis
  proof (cases "execute (as ! i) (world s)")
    case (Return w e)
    from True assms have fresh: "i \<notin> fst ` set (completed s)"
      by (simp add: done_inv_def)
    from True assms have
      "{j. j < length as \<and> (finished s)[i := True] ! j} = insert i {j. j < length as \<and> finished s ! j}"
      by (auto simp: done_inv_def nth_list_update)
    with True Return assms fresh show ?thesis
      by (simp add: done_inv_def unfold)
  qed (use assms in \<open>simp_all add: done_inv_def unfold\<close>)
qed

lemma done_inv_orchestrator_step: "done_inv n s \<Longrightarrow> done_inv n (orchestrator_step as s)"
  by (auto simp: done_inv_def orchestrator_step_def split: opc.splits list.splits sum.splits prod.splits)

lemma done_inv_environment_step: "done_inv n s \<Longrightarrow> done_inv n (environment_step env x s)"
  by (auto simp: done_inv_def environment_step_def split: sum.splits prod.splits)

lemma done_inv_step: "done_inv (length as) s \<Longrightarrow> done_inv (length as) (step as env c s)"
  by (simp add: step_def done_inv_actor_step done_inv_orchestrator_step done_inv_environment_step
      split: opc.splits choice.splits)

lemma done_inv_exec: "done_inv (length as) s \<Longrightarrow> done_inv (length as) (exec as env sched s)"
  by (induction sched arbitrary: s) (simp_all add: done_inv_step)

lemma done_inv_Run: "done_inv (length as) (Run as env sched w)"
  by (simp add: Run_def done_inv_exec done_inv_init)

lemma done_inv_length_completed: 
  assumes "done_inv n s" shows "length (completed s) = card {i. i < n \<and> finished s ! i}"
proof -
  have "length (completed s) = length (map fst (completed s))" by simp
  also have "\<dots> = card (set (map fst (completed s)))"
    using assms by (simp only: done_inv_def distinct_card)
  also have "\<dots> = card {i. i < n \<and> finished s ! i}"
    using assms by (simp add: done_inv_def)
  finally show ?thesis .
qed

lemma errors_within_capacity: "length (errors (Run as env sched w)) \<le> length as"
proof -
  let ?s = "Run as env sched w"
  have "length (errors ?s) \<le> length (completed ?s)"
    using chan_inv_Run [of as env sched w] by (simp add: chan_inv_def)
  also have "\<dots> = card {i. i < length as \<and> finished ?s ! i}"
    by (rule done_inv_length_completed [OF done_inv_Run])
  also have "\<dots> \<le> card {i. i < length as}"
    by (rule card_mono) auto
  finally show ?thesis by simp
qed


lemma ret_inv_init: "ret_inv as (Run_init as w)"
  by (simp add: ret_inv_def Run_init_def)

lemma ret_inv_actor_step: "ret_inv as s \<Longrightarrow> ret_inv as (actor_step as i s)"
  by (auto simp: ret_inv_def actor_step_def split: progress.splits)

lemma ret_inv_environment_step: "ret_inv as s \<Longrightarrow> ret_inv as (environment_step env x s)"
  by (auto simp: ret_inv_def environment_step_def split: sum.splits prod.splits)

lemma ret_inv_orchestrator_step: "ret_inv as s \<Longrightarrow> ret_inv as (orchestrator_step as s)"
  by (auto simp: ret_inv_def orchestrator_step_def split: opc.splits list.splits sum.splits prod.splits)

lemma ret_inv_step: "ret_inv as s \<Longrightarrow> ret_inv as (step as env c s)"
  by (simp add: step_def ret_inv_actor_step ret_inv_orchestrator_step ret_inv_environment_step
      split: opc.splits choice.splits)

lemma ret_inv_exec: "ret_inv as s \<Longrightarrow> ret_inv as (exec as env sched s)"
  by (induction sched arbitrary: s) (simp_all add: ret_inv_step)

lemma ret_inv_Run: "ret_inv as (Run as env sched w)"
  by (simp add: Run_def ret_inv_exec ret_inv_init)

lemma mark_inv_init: "mark_inv n Q (Run_init as w)"
  by (simp add: mark_inv_def Run_init_def)

lemma mark_inv_actor_step:
  assumes m: "interrupts_leave_marks as env Q" and inv: "mark_inv (length as) Q s"
    and nr: "\<And>e. pc s \<noteq> Returned e"
  shows "mark_inv (length as) Q (actor_step as i s)"
proof (cases "i < length as \<and> i < length (finished s) \<and> \<not> finished s ! i")
  case False
  then have "actor_step as i s = s"
    unfolding actor_step_def by (rule if_not_P)
  with inv show ?thesis by simp
next
  case True
  then have unfold: "actor_step as i s =
        (case execute (as ! i) (world s) of
           Blocked \<Rightarrow> s
         | Continue w \<Rightarrow> s\<lparr>world := w\<rparr>
         | Return w e \<Rightarrow>
             s\<lparr>world := w, finished := (finished s)[i := True],
               errors := errors s @ [(i, e)], completed := completed s @ [(i, e)]\<rparr>
         | Panics w m \<Rightarrow> s\<lparr>world := w, crashed := Some (PanicGoroutine m)\<rparr>)"
    unfolding actor_step_def by (rule if_P)
  from True have i: "i < length as" by simp
  from m i have stable: "\<And>w w' k e. Q k e w \<Longrightarrow>
      execute (as ! i) w = Continue w' \<or> (\<exists>r. execute (as ! i) w = Return w' r) \<Longrightarrow> Q k e w'"
    unfolding interrupts_leave_marks_def by blast
  show ?thesis
  proof (cases "execute (as ! i) (world s)")
    case Blocked
    with unfold inv show ?thesis by simp
  next
    case (Continue w')
    with stable [of _ _ "world s" w'] have "\<And>k e. Q k e (world s) \<Longrightarrow> Q k e w'"
      by blast
    with inv nr show ?thesis
      unfolding unfold Continue by (cases "pc s") (auto simp add: mark_inv_def)
  next
    case (Return w' r)
    with stable [of _ _ "world s" w'] have "\<And>k e. Q k e (world s) \<Longrightarrow> Q k e w'"
      by blast
    with inv nr show ?thesis
      unfolding unfold Return by (cases "pc s") (auto simp add: mark_inv_def)
  next
    case (Panics w' msg)
    with inv nr show ?thesis
      unfolding unfold Panics by (cases "pc s") (auto simp add: mark_inv_def)
  qed
qed

lemma mark_inv_environment_step:
  assumes m: "interrupts_leave_marks as env Q" and inv: "mark_inv n Q s"
    and nr: "\<And>e. pc s \<noteq> Returned e"
  shows "mark_inv n Q (environment_step env x s)"
proof (cases "env x (world s)")
  case (Inl c)
  with inv nr show ?thesis
    by (cases "pc s") (auto simp add: environment_step_def mark_inv_def)
next
  case (Inr w')
  from m have "\<And>w w' i e. Q i e w \<Longrightarrow> env x w = Inr w' \<Longrightarrow> Q i e w'"
    unfolding interrupts_leave_marks_def by blast
  with Inr have "\<And>k e. Q k e (world s) \<Longrightarrow> Q k e w'"
    by blast
  with inv nr Inr show ?thesis
    by (cases "pc s") (auto simp add: environment_step_def mark_inv_def)
qed

lemma mark_inv_orchestrator_step:
  assumes m: "interrupts_leave_marks as env Q" and inv: "mark_inv (length as) Q s"
    and nc: "crashed s = None"
  shows "mark_inv (length as) Q (orchestrator_step as s)"
proof (cases "pc s")
  case WaitFirst
  then show ?thesis
    by (cases "errors s") (simp_all add: orchestrator_step_def mark_inv_def)
next
  case (FanOut k e)
  show ?thesis
  proof (cases "k < length as")
    case False
    with FanOut inv nc show ?thesis
      by (simp add: orchestrator_step_def mark_inv_def)
  next
    case True
    show ?thesis
    proof (cases "interrupt (as ! k) e (world s)")
      case (Inl x)
      with FanOut True show ?thesis
        by (cases x) (simp add: orchestrator_step_def mark_inv_def)
    next
      case (Inr w')
      from m True Inr have new: "Q k e w'"
        and old: "\<And>i e'. i \<noteq> k \<Longrightarrow> Q i e' (world s) \<Longrightarrow> Q i e' w'"
        unfolding interrupts_leave_marks_def by blast+
      from inv FanOut nc have "\<forall>i<k. Q i e (world s)"
        by (simp add: mark_inv_def)
      with new old have "\<forall>i<Suc k. Q i e w'"
        by (auto simp add: less_Suc_eq)
      with FanOut True Inr nc show ?thesis
        by (simp add: orchestrator_step_def mark_inv_def)
    qed
  qed
next
  case (Drain k e)
  with inv nc show ?thesis
    by (cases "errors s") (auto simp add: orchestrator_step_def mark_inv_def)
next
  case (Returned e)
  with inv show ?thesis
    by (simp add: orchestrator_step_def)
qed

lemma mark_inv_step:
  assumes m: "interrupts_leave_marks as env Q" and inv: "mark_inv (length as) Q s"
  shows "mark_inv (length as) Q (step as env c s)"
proof (cases "crashed s \<noteq> None \<or> (\<exists>e. pc s = Returned e)")
  case True
  then have "step as env c s = s"
    by (auto simp add: step_def)
  with inv show ?thesis by simp
next
  case False
  then have nc: "crashed s = None" and nr: "\<And>e. pc s \<noteq> Returned e"
    by auto
  then have "step as env c s =
        (case c of
           Actor i \<Rightarrow> actor_step as i s
         | Orchestrator \<Rightarrow> orchestrator_step as s
         | Environment x \<Rightarrow> environment_step env x s)"
    by (cases "pc s") (auto simp add: step_def)
  then show ?thesis
    using mark_inv_actor_step [OF m inv nr] mark_inv_orchestrator_step [OF m inv nc]
      mark_inv_environment_step [OF m inv nr]
    by (cases c) simp_all
qed

lemma mark_inv_exec:
  "interrupts_leave_marks as env Q \<Longrightarrow> mark_inv (length as) Q s \<Longrightarrow>
   mark_inv (length as) Q (exec as env sched s)"
  by (induction sched arbitrary: s) (simp_all add: mark_inv_step)

lemma mark_inv_Run:
  "interrupts_leave_marks as env Q \<Longrightarrow> mark_inv (length as) Q (Run as env sched w)"
  unfolding Run_def by (simp add: mark_inv_exec mark_inv_init)

lemma exec_crashed: "crashed s \<noteq> None \<Longrightarrow> exec as env cs s = s"
  by (induction cs) (simp_all add: step_def)

lemma fan_out_runs:
  assumes "crashed s = None" and "pc s = FanOut k e" and "k \<le> length as"
  shows "case interrupt_all (drop k as) e (world s) of
           Inr w' \<Rightarrow>
             world (exec as env (replicate (Suc (length as - k)) Orchestrator) s) = w' \<and>
             pc (exec as env (replicate (Suc (length as - k)) Orchestrator) s) = Drain 1 e \<and>
             crashed (exec as env (replicate (Suc (length as - k)) Orchestrator) s) = None
         | Inl x \<Rightarrow>
             world (exec as env (replicate (Suc (length as - k)) Orchestrator) s) = snd x \<and>
             crashed (exec as env (replicate (Suc (length as - k)) Orchestrator) s) =
               Some (PanicMain (fst x))"
  using assms
proof (induction "length as - k" arbitrary: k s)
  case 0
  then have k: "k = length as" by simp
  with 0 show ?case
    by (simp add: step_def orchestrator_step_def)
next
  case (Suc n)
  then have k: "k < length as" by simp
  then have d: "drop k as = as ! k # drop (Suc k) as"
    by (simp add: Cons_nth_drop_Suc)
  from Suc.hyps(2) have n: "length as - k = Suc (length as - Suc k)" and n': "n = length as - Suc k"
    by simp_all
  show ?case
  proof (cases "interrupt (as ! k) e (world s)")
    case (Inl x)
    obtain m w' where x: "x = (m, w')" by (cases x)
    let ?s' = "s\<lparr>world := w', interrupted := interrupted s @ [(k, e)], crashed := Some (PanicMain m)\<rparr>"
    have st: "step as env Orchestrator s = ?s'"
      using Suc.prems k Inl x by (simp add: step_def orchestrator_step_def)
    have "exec as env (replicate (Suc (length as - k)) Orchestrator) s = ?s'"
      by (simp add: st exec_crashed)
    with Inl x d show ?thesis
      by simp
  next
    case (Inr w')
    let ?s' = "s\<lparr>world := w', interrupted := interrupted s @ [(k, e)], pc := FanOut (Suc k) e\<rparr>"
    have st: "step as env Orchestrator s = ?s'"
      using Suc.prems k Inr by (simp add: step_def orchestrator_step_def)
    have ex: "exec as env (replicate (Suc (length as - k)) Orchestrator) s =
        exec as env (replicate (Suc (length as - Suc k)) Orchestrator) ?s'"
      unfolding n by (simp add: st)
    from Suc.hyps(1) [OF n', of ?s'] Suc.prems k
    have "case interrupt_all (drop (Suc k) as) e w' of
           Inr w'' \<Rightarrow>
             world (exec as env (replicate (Suc (length as - Suc k)) Orchestrator) ?s') = w'' \<and>
             pc (exec as env (replicate (Suc (length as - Suc k)) Orchestrator) ?s') = Drain 1 e \<and>
             crashed (exec as env (replicate (Suc (length as - Suc k)) Orchestrator) ?s') = None
         | Inl x \<Rightarrow>
             world (exec as env (replicate (Suc (length as - Suc k)) Orchestrator) ?s') = snd x \<and>
             crashed (exec as env (replicate (Suc (length as - Suc k)) Orchestrator) ?s') =
               Some (PanicMain (fst x))"
      by simp
    with Inr d show ?thesis
      unfolding ex by simp
  qed
qed

lemma first_completion_fans_out:
  assumes "crashed s = None" and "pc s = WaitFirst" and "errors s = (j, e) # rest"
  shows "case interrupt_all as e (world s) of
           Inr w' \<Rightarrow>
             world (exec as env (replicate (length as + 2) Orchestrator) s) = w' \<and>
             pc (exec as env (replicate (length as + 2) Orchestrator) s) = Drain 1 e \<and>
             crashed (exec as env (replicate (length as + 2) Orchestrator) s) = None
         | Inl x \<Rightarrow>
             world (exec as env (replicate (length as + 2) Orchestrator) s) = snd x \<and>
             crashed (exec as env (replicate (length as + 2) Orchestrator) s) =
               Some (PanicMain (fst x))"
proof -
  let ?s' = "s\<lparr>errors := rest, pc := FanOut 0 e\<rparr>"
  have st: "step as env Orchestrator s = ?s'"
    using assms by (simp add: step_def orchestrator_step_def)
  have ex: "exec as env (replicate (length as + 2) Orchestrator) s =
      exec as env (replicate (Suc (length as - 0)) Orchestrator) ?s'"
    by (simp add: st)
  from fan_out_runs [of ?s' 0 e as env] assms show ?thesis
    unfolding ex by simp
qed

text \<open>
  The state of the example group when its three actors have finished in reverse order and
  the coordinator has run to its end.
\<close>

lemma example_run:
  "Run example_group example_env reverse_schedule () =
     \<lparr>world = (), finished = [True, True, True], errors = [], pc = Returned (Some (Error ''c'')),
      completed = [(2, Some (Error ''c'')), (1, Some (Error ''b'')), (0, None)],
      interrupted = [(0, Some (Error ''c'')), (1, Some (Error ''c'')), (2, Some (Error ''c''))],
      crashed = None\<rparr>"
  by (simp add: Run_def Run_init_def example_group_def example_actor_def example_env_def
      reverse_schedule_def step_def actor_step_def orchestrator_step_def)

text \<open>
  Claim C1. For every group of actors and every interleaving, when \<open>Run\<close> returns an
  error value, that value is the one the first actor to complete returned from its
  \<open>run\<close>: the head of the arrival history, whatever the position of that actor in the
  group; what later actors returned is not looked at.
\<close>

theorem Run_returns_first_completion:
  assumes "pc (Run as env sched w) = Returned e"
  shows "\<exists>i rest w0 w1. completed (Run as env sched w) = (i, e) # rest \<and> i < length as \<and>
           execute (as ! i) w0 = Return w1 e"
proof -
  let ?s = "Run as env sched w"
  from assms chan_inv_Run [of as env sched w]
  have ne: "completed ?s \<noteq> []" and e: "snd (hd (completed ?s)) = e"
    by (simp_all add: chan_inv_def)
  then obtain i rest where c: "completed ?s = (i, e) # rest"
    by (cases "completed ?s") auto
  with ret_inv_Run [of as env sched w]
  have "i < length as \<and> (\<exists>w0 w1. execute (as ! i) w0 = Return w1 e)"
    by (simp add: ret_inv_def)
  with c show ?thesis by blast
qed

theorem Run_returns_first_completion_witness:
  "pc (Run example_group example_env reverse_schedule ()) = Returned (Some (Error ''c'')) \<and>
   (\<exists>i rest w0 w1.
      completed (Run example_group example_env reverse_schedule ()) =
        (i, Some (Error ''c'')) # rest \<and>
      i < length example_group \<and>
      execute (example_group ! i) w0 = Return w1 (Some (Error ''c'')))"
proof -
  have h: "pc (Run example_group example_env reverse_schedule ()) = Returned (Some (Error ''c''))"
    by (simp add: example_run)
  from Run_returns_first_completion [OF h] h show ?thesis by blast
qed

text \<open>
  The state of the group of waiting actors when the coordinator has run to its end, and
  that its interrupts leave marks.
\<close>

lemma waiting_run:
  "Run waiting_group quiet_env last_fails_schedule [] =
     \<lparr>world = [(0, Some (Error ''c'')), (1, Some (Error ''c'')), (2, Some (Error ''c''))],
      finished = [True, True, True], errors = [], pc = Returned (Some (Error ''c'')),
      completed = [(2, Some (Error ''c'')), (1, None), (0, None)],
      interrupted = [(0, Some (Error ''c'')), (1, Some (Error ''c'')), (2, Some (Error ''c''))],
      crashed = None\<rparr>"
  by (simp add: Run_def Run_init_def waiting_group_def waiting_actor_def quiet_env_def
      last_fails_schedule_def step_def actor_step_def orchestrator_step_def)

lemma waiting_group_nth:
  assumes "j < length waiting_group"
  shows "interrupt (waiting_group ! j) e w = Inr (w @ [(j, e)])"
    and "execute (waiting_group ! j) w = Continue w' \<or> (\<exists>r. execute (waiting_group ! j) w = Return w' r)
           \<Longrightarrow> w' = w"
proof -
  from assms have "j = 0 \<or> j = 1 \<or> j = 2"
    by (auto simp add: waiting_group_def)
  then show "interrupt (waiting_group ! j) e w = Inr (w @ [(j, e)])"
    by (auto simp add: waiting_group_def waiting_actor_def)
  assume "execute (waiting_group ! j) w = Continue w' \<or> (\<exists>r. execute (waiting_group ! j) w = Return w' r)"
  with \<open>j = 0 \<or> j = 1 \<or> j = 2\<close> show "w' = w"
    by (auto simp add: waiting_group_def waiting_actor_def split: if_splits)
qed

lemma waiting_group_marks: "interrupts_leave_marks waiting_group quiet_env called_with"
  unfolding interrupts_leave_marks_def
proof (intro conjI allI impI)
  fix j e w w'
  assume "j < length waiting_group \<and> interrupt (waiting_group ! j) e w = Inr w'"
  then have w': "w' = w @ [(j, e)]"
    using waiting_group_nth(1) [of j e w] by auto
  then show "called_with j e w'"
    by (simp add: called_with_def)
  fix i e'
  assume "i \<noteq> j \<and> called_with i e' w"
  with w' show "called_with i e' w'"
    by (simp add: called_with_def)
next
  fix j w w' i e
  assume a: "j < length waiting_group \<and> called_with i e w \<and>
        (execute (waiting_group ! j) w = Continue w' \<or> (\<exists>r. execute (waiting_group ! j) w = Return w' r))"
  then have "w' = w"
    using waiting_group_nth(2) [of j w w'] by blast
  with a show "called_with i e w'"
    by simp
next
  fix x :: unit and w w' :: "(nat \<times> go_error option) list" and i e
  assume "called_with i e w \<and> quiet_env x w = Inr w'"
  then show "called_with i e w'"
    by (auto simp add: quiet_env_def)
qed

text \<open>
  Claim C2. For every group, every interleaving, and whichever actor completes first:
  when the coordinator has made its calls and waits for the remaining completions, and
  so when \<open>Run\<close> has returned, every registered actor's interrupt has been called with the
  error \<open>e\<close> of the first completion, the actor that completed first included: the mark
  that each interrupt leaves in the world is there, and each of these calls has returned
  without a panic. And once the first completion
  \<open>(j, e')\<close> is in the channel, the coordinator's next moves are the calls
  \<open>interrupt(e')\<close> on every actor in registration order, on the world as it stands then;
  only after them does it wait for the other actors (or the process dies in the call that
  panicked).
\<close>

theorem Run_interrupts_every_actor:
  "(interrupts_leave_marks as env Q \<and> i < length as \<and>
      (pc (Run as env sched w) = Returned e \<or>
       pc (Run as env sched w) = Drain n e \<and> crashed (Run as env sched w) = None) \<longrightarrow>
      Q i e (world (Run as env sched w)) \<and>
      completed (Run as env sched w) \<noteq> [] \<and>
      snd (hd (completed (Run as env sched w))) = e \<and>
      fst (hd (completed (Run as env sched w))) < length as \<and>
      Q (fst (hd (completed (Run as env sched w)))) e (world (Run as env sched w))) \<and>
   (i < length as \<and>
      (pc (Run as env sched w) = Returned e \<or>
       pc (Run as env sched w) = Drain n e \<and> crashed (Run as env sched w) = None) \<longrightarrow>
      (\<exists>w0 w1. interrupt (as ! i) e w0 = Inr w1)) \<and>
   (crashed s = None \<and> pc s = WaitFirst \<and> errors s = (j, e') # rest \<longrightarrow>
      (case interrupt_all as e' (world s) of
         Inr w' \<Rightarrow>
           world (exec as env (replicate (length as + 2) Orchestrator) s) = w' \<and>
           pc (exec as env (replicate (length as + 2) Orchestrator) s) = Drain 1 e' \<and>
           crashed (exec as env (replicate (length as + 2) Orchestrator) s) = None
       | Inl x \<Rightarrow>
           world (exec as env (replicate (length as + 2) Orchestrator) s) = snd x \<and>
           crashed (exec as env (replicate (length as + 2) Orchestrator) s) =
             Some (PanicMain (fst x))))"
proof (intro conjI impI)
  let ?s = "Run as env sched w"
  assume a: "interrupts_leave_marks as env Q \<and> i < length as \<and>
      (pc ?s = Returned e \<or> pc ?s = Drain n e \<and> crashed ?s = None)"
  then have m: "mark_inv (length as) Q ?s"
    by (simp add: mark_inv_Run)
  from a have pc: "pc ?s = Returned e \<or> pc ?s = Drain n e \<and> crashed ?s = None"
    by simp
  with m have all: "\<forall>k<length as. Q k e (world ?s)"
    by (auto simp add: mark_inv_def)
  from pc chan_inv_Run [of as env sched w]
  have ne: "completed ?s \<noteq> []" and e: "snd (hd (completed ?s)) = e"
    by (auto simp add: chan_inv_def)
  from ne ret_inv_Run [of as env sched w] have f: "fst (hd (completed ?s)) < length as"
    by (cases "completed ?s") (simp_all add: ret_inv_def)
  from a all show "Q i e (world ?s)" by simp
  from ne show "completed ?s \<noteq> []" .
  from e show "snd (hd (completed ?s)) = e" .
  from f show "fst (hd (completed ?s)) < length as" .
  from f all show "Q (fst (hd (completed ?s))) e (world ?s)" by simp
next
  let ?s = "Run as env sched w"
  assume a: "i < length as \<and> (pc ?s = Returned e \<or> pc ?s = Drain n e \<and> crashed ?s = None)"
  have "interrupts_leave_marks as env (\<lambda>i e w'. \<exists>w0 w1. interrupt (as ! i) e w0 = Inr w1)"
    unfolding interrupts_leave_marks_def by blast
  then have "mark_inv (length as) (\<lambda>i e w'. \<exists>w0 w1. interrupt (as ! i) e w0 = Inr w1) ?s"
    by (rule mark_inv_Run)
  with a show "\<exists>w0 w1. interrupt (as ! i) e w0 = Inr w1"
    by (auto simp add: mark_inv_def)
next
  assume "crashed s = None \<and> pc s = WaitFirst \<and> errors s = (j, e') # rest"
  then show "case interrupt_all as e' (world s) of
         Inr w' \<Rightarrow>
           world (exec as env (replicate (length as + 2) Orchestrator) s) = w' \<and>
           pc (exec as env (replicate (length as + 2) Orchestrator) s) = Drain 1 e' \<and>
           crashed (exec as env (replicate (length as + 2) Orchestrator) s) = None
       | Inl x \<Rightarrow>
           world (exec as env (replicate (length as + 2) Orchestrator) s) = snd x \<and>
           crashed (exec as env (replicate (length as + 2) Orchestrator) s) =
             Some (PanicMain (fst x))"
    using first_completion_fans_out [of s j e' rest as env] by simp
qed

theorem Run_interrupts_every_actor_witness:
  "interrupts_leave_marks waiting_group quiet_env called_with \<and>
   (0::nat) < length waiting_group \<and>
   pc (Run waiting_group quiet_env last_fails_schedule []) = Returned (Some (Error ''c'')) \<and>
   called_with 0 (Some (Error ''c'')) (world (Run waiting_group quiet_env last_fails_schedule [])) \<and>
   fst (hd (completed (Run waiting_group quiet_env last_fails_schedule []))) = 2 \<and>
   called_with 2 (Some (Error ''c'')) (world (Run waiting_group quiet_env last_fails_schedule [])) \<and>
   crashed first_done = None \<and> pc first_done = WaitFirst \<and>
   errors first_done = [(2, Some (Error ''c''))] \<and>
   interrupt_all waiting_group (Some (Error ''c'')) (world first_done) =
     Inr [(0, Some (Error ''c'')), (1, Some (Error ''c'')), (2, Some (Error ''c''))] \<and>
   world (exec waiting_group quiet_env (replicate (length waiting_group + 2) Orchestrator) first_done) =
     [(0, Some (Error ''c'')), (1, Some (Error ''c'')), (2, Some (Error ''c''))] \<and>
   pc (exec waiting_group quiet_env (replicate (length waiting_group + 2) Orchestrator) first_done) =
     Drain 1 (Some (Error ''c'')) \<and>
   (\<exists>w0 w1. interrupt (waiting_group ! 0) (Some (Error ''c'')) w0 = Inr w1)"
proof -
  have h: "pc (Run waiting_group quiet_env last_fails_schedule []) = Returned (Some (Error ''c''))"
    and f: "fst (hd (completed (Run waiting_group quiet_env last_fails_schedule []))) = 2"
    by (simp_all add: waiting_run)
  have l: "(0::nat) < length waiting_group"
    by (simp add: waiting_group_def)
  have s: "crashed first_done = None \<and> pc first_done = WaitFirst \<and>
      errors first_done = [(2, Some (Error ''c''))]"
    by (simp add: first_done_def)
  have ia: "interrupt_all waiting_group (Some (Error ''c'')) (world first_done) =
     Inr [(0, Some (Error ''c'')), (1, Some (Error ''c'')), (2, Some (Error ''c''))]"
    by (simp add: waiting_group_def waiting_actor_def first_done_def)
  from Run_interrupts_every_actor
         [of waiting_group quiet_env called_with 0 last_fails_schedule "[]" "Some (Error ''c'')" 0
             first_done 2 "Some (Error ''c'')" "[]"]
       waiting_group_marks h l f s ia
  show ?thesis
    by simp
qed



section \<open>The program: signal watcher and server under the run group\<close>

lemma world_invariant_step:
  assumes ex: "\<And>a w. a \<in> set as \<Longrightarrow> P w \<Longrightarrow>
                 (case execute a w of Blocked \<Rightarrow> True | Continue w' \<Rightarrow> P w'
                  | Return w' e \<Rightarrow> P w' | Panics w' m \<Rightarrow> P w')"
    and int: "\<And>a e w. a \<in> set as \<Longrightarrow> P w \<Longrightarrow>
                 (case interrupt a e w of Inl (m, w') \<Rightarrow> P w' | Inr w' \<Rightarrow> P w')"
    and env: "\<And>x w w'. P w \<Longrightarrow> env x w = Inr w' \<Longrightarrow> P w'"
    and P: "P (world s)"
  shows "P (world (step as env c s))"
proof (cases c)
  case (Actor i)
  show ?thesis
  proof (cases "i < length as \<and> i < length (finished s) \<and> \<not> finished s ! i")
    case True
    then have "as ! i \<in> set as" by simp
    from ex [OF this P] True P Actor show ?thesis
      by (auto simp: step_def actor_step_def split: progress.splits opc.splits)
  next
    case False
    with P Actor show ?thesis
      by (auto simp: step_def actor_step_def split: opc.splits)
  qed
next
  case Orchestrator
  show ?thesis
  proof (cases "pc s")
    case (FanOut k e)
    show ?thesis
    proof (cases "k < length as")
      case True
      then have "as ! k \<in> set as" by simp
      from int [OF this P, of e] True P Orchestrator FanOut show ?thesis
        by (auto simp: step_def orchestrator_step_def split: sum.splits prod.splits)
    next
      case False
      with P Orchestrator FanOut show ?thesis
        by (auto simp: step_def orchestrator_step_def)
    qed
  qed (use P Orchestrator in \<open>auto simp: step_def orchestrator_step_def split: list.splits\<close>)
next
  case (Environment x)
  with P env show ?thesis
    by (auto simp: step_def environment_step_def split: sum.splits opc.splits)
qed

lemma world_invariant_exec:
  assumes ex: "\<And>a w. a \<in> set as \<Longrightarrow> P w \<Longrightarrow>
                 (case execute a w of Blocked \<Rightarrow> True | Continue w' \<Rightarrow> P w'
                  | Return w' e \<Rightarrow> P w' | Panics w' m \<Rightarrow> P w')"
    and int: "\<And>a e w. a \<in> set as \<Longrightarrow> P w \<Longrightarrow>
                 (case interrupt a e w of Inl (m, w') \<Rightarrow> P w' | Inr w' \<Rightarrow> P w')"
    and env: "\<And>x w w'. P w \<Longrightarrow> env x w = Inr w' \<Longrightarrow> P w'"
    and P: "P (world s)"
  shows "P (world (exec as env sched s))"
  using P
proof (induction sched arbitrary: s)
  case Nil
  then show ?case by simp
next
  case (Cons c cs)
  have "P (world (step as env c s))"
    by (rule world_invariant_step [where P = P, OF ex int env Cons.prems])
  then show ?case by (simp add: Cons.IH)
qed

lemma world_invariant_Run:
  assumes ex: "\<And>a w. a \<in> set as \<Longrightarrow> P w \<Longrightarrow>
                 (case execute a w of Blocked \<Rightarrow> True | Continue w' \<Rightarrow> P w'
                  | Return w' e \<Rightarrow> P w' | Panics w' m \<Rightarrow> P w')"
    and int: "\<And>a e w. a \<in> set as \<Longrightarrow> P w \<Longrightarrow>
                 (case interrupt a e w of Inl (m, w') \<Rightarrow> P w' | Inr w' \<Rightarrow> P w')"
    and env: "\<And>x w w'. P w \<Longrightarrow> env x w = Inr w' \<Longrightarrow> P w'"
    and P: "P w"
  shows "P (world (Run as env sched w))"
  unfolding Run_def
  by (rule world_invariant_exec [where P = P, OF ex int env]) (simp_all add: Run_init_def P)

text \<open>The server's closures change nothing but the server.\<close>

lemma server_execute_frame:
  "(case server_execute impl w of Blocked \<Rightarrow> True
    | Continue w' \<Rightarrow> \<exists>s. w' = w\<lparr>srv := s\<rparr>
    | Return w' e \<Rightarrow> \<exists>s. w' = w\<lparr>srv := s\<rparr>
    | Panics w' m \<Rightarrow> \<exists>s. w' = w\<lparr>srv := s\<rparr>)"
  by (auto simp: server_execute_def split: progress.splits)

lemma server_interrupt_frame:
  "(case server_interrupt impl e w of Inl (m, w') \<Rightarrow> \<exists>s. w' = w\<lparr>srv := s\<rparr>
    | Inr w' \<Rightarrow> \<exists>s. w' = w\<lparr>srv := s\<rparr>)"
  by (auto simp: server_interrupt_def split: sum.splits prod.splits)

lemma sig_inv_srv [simp]: "sig_inv (w\<lparr>srv := s\<rparr>) = sig_inv w"
  by (simp add: sig_inv_def split: watcher_pc.splits)

lemma trace_inv_srv [simp]: "trace_inv t0 (w\<lparr>srv := s\<rparr>) = trace_inv t0 w"
  by (simp add: trace_inv_def)

lemma sig_inv_watcher_execute:
  "sig_inv w \<Longrightarrow> (case watcher_execute w of Blocked \<Rightarrow> True | Continue w' \<Rightarrow> sig_inv w'
     | Return w' e \<Rightarrow> sig_inv w' | Panics w' m \<Rightarrow> sig_inv w')"
  by (cases "watcher_pc w"; cases "ch_buf (sig w)")
     (simp_all add: sig_inv_def watcher_execute_def chan_recv_def)

lemma sig_inv_watcher_interrupt:
  "sig_inv w \<Longrightarrow> (case watcher_interrupt e w of Inl (m, w') \<Rightarrow> sig_inv w' | Inr w' \<Rightarrow> sig_inv w')"
  by (cases "watcher_pc w")
     (simp_all add: sig_inv_def watcher_interrupt_def chan_close_def Let_def)
lemma deliver_Inr:
  assumes "deliver sg w = Inr w'"
  shows "sg \<in> handlers w \<and> (\<exists>c. chan_try_send sg (sig w) = Inr c \<and>
           w' = w\<lparr>sig := c, trace := trace w @ [Signalled sg]\<rparr>)"
proof (cases "sg \<in> handlers w")
  case True
  with assms show ?thesis
    by (cases "chan_try_send sg (sig w)") (simp_all add: deliver_def)
next
  case False
  with assms show ?thesis by (simp add: deliver_def)
qed

lemma chan_try_send_Inr:
  assumes "chan_try_send x c = Inr c'"
  shows "\<not> ch_closed c \<and> ch_cap c' = ch_cap c \<and> ch_closed c' = ch_closed c \<and>
         (ch_buf c' = ch_buf c @ [x] \<or> ch_buf c' = ch_buf c \<and> ch_cap c \<le> length (ch_buf c))"
proof (cases "ch_closed c")
  case True
  with assms show ?thesis by (simp add: chan_try_send_def)
next
  case False
  with assms show ?thesis
    by (cases "length (ch_buf c) < ch_cap c") (auto simp: chan_try_send_def)
qed

lemma sig_inv_deliver:
  assumes "sig_inv w" and "deliver sg w = Inr w'"
  shows "sig_inv w'"
proof -
  from deliver_Inr [OF assms(2)] obtain c where
    mem: "sg \<in> handlers w" and c: "chan_try_send sg (sig w) = Inr c"
    and w': "w' = w\<lparr>sig := c, trace := trace w @ [Signalled sg]\<rparr>" by blast
  from chan_try_send_Inr [OF c] have cap: "ch_cap c = ch_cap (sig w)" by simp
  from mem assms(1) have "watcher_pc w = Receiving"
    by (cases "watcher_pc w") (simp_all add: sig_inv_def)
  with assms(1) w' cap show ?thesis by (simp add: sig_inv_def)
qed

lemma sig_inv_execute:
  assumes "a \<in> set (program_group impl)" and "sig_inv w"
  shows "(case execute a w of Blocked \<Rightarrow> True | Continue w' \<Rightarrow> sig_inv w'
          | Return w' e \<Rightarrow> sig_inv w' | Panics w' m \<Rightarrow> sig_inv w')"
proof -
  from assms(1) consider "a = signal_watcher" | "a = server_actor impl"
    by (auto simp: program_group_def)
  then show ?thesis
  proof cases
    case 1
    with sig_inv_watcher_execute [OF assms(2)] show ?thesis
      by (simp add: signal_watcher_def)
  next
    case 2
    with server_execute_frame [where impl = impl and w = w] assms(2) show ?thesis
      by (auto simp: server_actor_def split: progress.splits)
  qed
qed

lemma sig_inv_interrupt:
  assumes "a \<in> set (program_group impl)" and "sig_inv w"
  shows "(case interrupt a e w of Inl (m, w') \<Rightarrow> sig_inv w' | Inr w' \<Rightarrow> sig_inv w')"
proof -
  from assms(1) consider "a = signal_watcher" | "a = server_actor impl"
    by (auto simp: program_group_def)
  then show ?thesis
  proof cases
    case 1
    with sig_inv_watcher_interrupt [OF assms(2), of e] show ?thesis
      by (simp add: signal_watcher_def)
  next
    case 2
    with server_interrupt_frame [where impl = impl and e = e and w = w] assms(2) show ?thesis
      by (auto simp: server_actor_def split: sum.splits prod.splits)
  qed
qed

lemma sig_inv_Run:
  "sig_inv (world (Run (program_group impl) deliver sched (initial_world s0 t0)))"
proof (rule world_invariant_Run [where P = sig_inv])
  show "sig_inv (initial_world s0 t0)"
    by (simp add: sig_inv_def initial_world_def make_chan_def)
next
  fix a and w :: "'a world"
  assume "a \<in> set (program_group impl)" and "sig_inv w"
  then show "case execute a w of Blocked \<Rightarrow> True | Continue w' \<Rightarrow> sig_inv w'
          | Return w' e \<Rightarrow> sig_inv w' | Panics w' m \<Rightarrow> sig_inv w'"
    by (rule sig_inv_execute)
next
  fix a e and w :: "'a world"
  assume "a \<in> set (program_group impl)" and "sig_inv w"
  then show "case interrupt a e w of Inl (m, w') \<Rightarrow> sig_inv w' | Inr w' \<Rightarrow> sig_inv w'"
    by (rule sig_inv_interrupt)
next
  fix x and w w' :: "'a world"
  assume "sig_inv w" and "deliver x w = Inr w'"
  then show "sig_inv w'" by (rule sig_inv_deliver)
qed

lemma watcher_execute_cases:
  obtains
    (subscribe) "watcher_pc w = Subscribing"
      "watcher_execute w =
         Continue (w\<lparr>handlers := handlers w \<union> {os_Interrupt, SIGTERM}, watcher_pc := Receiving,
                     trace := trace w @ [Notify {os_Interrupt, SIGTERM}]\<rparr>)"
  | (blocked) "watcher_pc w = Receiving" "ch_buf (sig w) = []" "\<not> ch_closed (sig w)"
      "watcher_execute w = Blocked"
  | (signal) sg rest where "watcher_pc w = Receiving" "ch_buf (sig w) = sg # rest"
      "watcher_execute w = Return (w\<lparr>sig := (sig w)\<lparr>ch_buf := rest\<rparr>\<rparr>) None"
  | (closed) "watcher_pc w = Receiving" "ch_buf (sig w) = []" "ch_closed (sig w)"
      "watcher_execute w = Return w None"
proof (cases "watcher_pc w")
  case Subscribing
  then show ?thesis by (intro subscribe) (simp_all add: watcher_execute_def)
next
  case Receiving
  show ?thesis
  proof (cases "ch_buf (sig w)")
    case Nil
    show ?thesis
    proof (cases "ch_closed (sig w)")
      case True
      with Receiving Nil show ?thesis
        by (intro closed) (simp_all add: watcher_execute_def chan_recv_def)
    next
      case False
      with Receiving Nil show ?thesis
        by (intro blocked) (simp_all add: watcher_execute_def chan_recv_def)
    qed
  next
    case (Cons sg rest)
    with Receiving show ?thesis
      by (intro signal [of sg rest]) (simp_all add: watcher_execute_def chan_recv_def)
  qed
qed

lemma watcher_interrupt_cases:
  obtains
    (close) "\<not> ch_closed (sig w)"
      "watcher_interrupt e w =
         Inr (w\<lparr>trace := trace w @ [Log LevelInfo ''caught interrupt'' None],
                sig := (sig w)\<lparr>ch_closed := True\<rparr>\<rparr>)"
  | (panic) "ch_closed (sig w)"
      "watcher_interrupt e w =
         Inl (''close of closed channel'',
              w\<lparr>trace := trace w @ [Log LevelInfo ''caught interrupt'' None]\<rparr>)"
proof (cases "ch_closed (sig w)")
  case True
  then show ?thesis
    by (intro panic) (simp_all add: watcher_interrupt_def chan_close_def Let_def)
next
  case False
  then show ?thesis
    by (intro close) (simp_all add: watcher_interrupt_def chan_close_def Let_def)
qed

lemma trace_inv_append:
  "trace_inv t0 w \<Longrightarrow> trace w' = trace w @ [ev] \<Longrightarrow> watcher_event ev \<Longrightarrow> trace_inv t0 w'"
  by (auto simp: trace_inv_def)

lemma trace_inv_same: "trace_inv t0 w \<Longrightarrow> trace w' = trace w \<Longrightarrow> trace_inv t0 w'"
  by (simp add: trace_inv_def)

lemma trace_inv_watcher_execute:
  assumes "trace_inv t0 w"
  shows "(case watcher_execute w of Blocked \<Rightarrow> True | Continue w' \<Rightarrow> trace_inv t0 w'
     | Return w' e \<Rightarrow> trace_inv t0 w' | Panics w' m \<Rightarrow> trace_inv t0 w')"
proof (cases rule: watcher_execute_cases [of w])
  case subscribe
  with assms show ?thesis by (auto intro: trace_inv_append)
next
  case (signal sg rest)
  with assms show ?thesis by (auto intro: trace_inv_same)
qed (use assms in simp_all)

lemma trace_inv_watcher_interrupt:
  assumes "trace_inv t0 w"
  shows "(case watcher_interrupt e w of Inl (m, w') \<Rightarrow> trace_inv t0 w' | Inr w' \<Rightarrow> trace_inv t0 w')"
proof (cases rule: watcher_interrupt_cases [where w = w and e = e])
  case close
  with assms show ?thesis by (auto intro: trace_inv_append)
next
  case panic
  with assms show ?thesis by (auto intro: trace_inv_append)
qed

lemma trace_inv_deliver:
  assumes "trace_inv t0 w" and "deliver sg w = Inr w'"
  shows "trace_inv t0 w'"
proof -
  from deliver_Inr [OF assms(2)] obtain c where
    w': "w' = w\<lparr>sig := c, trace := trace w @ [Signalled sg]\<rparr>" by blast
  with assms(1) show ?thesis by (auto intro: trace_inv_append)
qed

lemma program_group_cases:
  assumes "a \<in> set (program_group impl)"
  obtains "a = signal_watcher" | "a = server_actor impl"
  using assms by (auto simp: program_group_def)

lemma trace_inv_Run:
  "trace_inv t0 (world (Run (program_group impl) deliver sched (initial_world s0 t0)))"
proof (rule world_invariant_Run [where P = "trace_inv t0"])
  show "trace_inv t0 (initial_world s0 t0)"
    by (simp add: trace_inv_def initial_world_def)
next
  fix a and w :: "'a world"
  assume a: "a \<in> set (program_group impl)" and w: "trace_inv t0 w"
  from a show "case execute a w of Blocked \<Rightarrow> True | Continue w' \<Rightarrow> trace_inv t0 w'
          | Return w' e \<Rightarrow> trace_inv t0 w' | Panics w' m \<Rightarrow> trace_inv t0 w'"
  proof (cases rule: program_group_cases)
    case 1
    with trace_inv_watcher_execute [OF w] show ?thesis by (simp add: signal_watcher_def)
  next
    case 2
    with server_execute_frame [where impl = impl and w = w] w show ?thesis
      by (auto simp: server_actor_def split: progress.splits)
  qed
next
  fix a e and w :: "'a world"
  assume a: "a \<in> set (program_group impl)" and w: "trace_inv t0 w"
  from a show "case interrupt a e w of Inl (m, w') \<Rightarrow> trace_inv t0 w' | Inr w' \<Rightarrow> trace_inv t0 w'"
  proof (cases rule: program_group_cases)
    case 1
    with trace_inv_watcher_interrupt [OF w, of e] show ?thesis by (simp add: signal_watcher_def)
  next
    case 2
    with server_interrupt_frame [where impl = impl and e = e and w = w] w show ?thesis
      by (auto simp: server_actor_def split: sum.splits prod.splits)
  qed
next
  fix x and w w' :: "'a world"
  assume "trace_inv t0 w" and "deliver x w = Inr w'"
  then show "trace_inv t0 w'" by (rule trace_inv_deliver)
qed

lemma watcher_returns_nil: "watcher_execute w = Return w' e \<Longrightarrow> e = None"
  by (cases rule: watcher_execute_cases [of w]) simp_all

lemma length_program_group [simp]: "length (program_group impl) = 2"
  by (simp add: program_group_def)

lemma program_group_nth [simp]:
  "program_group impl ! 0 = signal_watcher"
  "program_group impl ! Suc 0 = server_actor impl"
  by (simp_all add: program_group_def)

lemma watcher_completes_nil:
  assumes "c \<in> set (completed (Run (program_group impl) env sched w))" and "fst c = 0"
  shows "snd c = None"
proof -
  from ret_inv_Run [of "program_group impl" env sched w] assms
  obtain w0 w1 where "execute (program_group impl ! 0) w0 = Return w1 (snd c)"
    unfolding ret_inv_def by force
  then have "watcher_execute w0 = Return w1 (snd c)"
    by (simp add: signal_watcher_def)
  then show ?thesis by (rule watcher_returns_nil)
qed

lemma drop_append_le: "n \<le> length xs \<Longrightarrow> drop n (xs @ ys) = drop n xs @ ys"
  by simp

lemma unblock_inv_init:
  "unblock_inv (length t0) (Run_init (program_group impl) (initial_world s0 t0))"
  by (simp add: unblock_inv_def Run_init_def initial_world_def make_chan_def)

lemma unblock_inv_actor_step:
  assumes inv: "unblock_inv n s"
  shows "unblock_inv n (actor_step (program_group impl) i s)"
proof (cases "i < length (program_group impl) \<and> i < length (finished s) \<and> \<not> finished s ! i")
  case False
  then have "actor_step (program_group impl) i s = s"
    unfolding actor_step_def by (rule if_not_P)
  with inv show ?thesis by simp
next
  case True
  then have unfold: "actor_step (program_group impl) i s =
      (case execute (program_group impl ! i) (world s) of
         Blocked \<Rightarrow> s
       | Continue w \<Rightarrow> s\<lparr>world := w\<rparr>
       | Return w e \<Rightarrow>
           s\<lparr>world := w, finished := (finished s)[i := True],
             errors := errors s @ [(i, e)], completed := completed s @ [(i, e)]\<rparr>
       | Panics w m \<Rightarrow> s\<lparr>world := w, crashed := Some (PanicGoroutine m)\<rparr>)"
    unfolding actor_step_def by (rule if_P)
  from True have "i = 0 \<or> i = Suc 0" by auto
  then show ?thesis
  proof
    assume i: "i = 0"
    from i have ex: "execute (program_group impl ! i) (world s) = watcher_execute (world s)"
      by (simp add: signal_watcher_def)
    from i True have upd: "(finished s)[i := True] ! 0" by simp
    show ?thesis
    proof (cases rule: watcher_execute_cases [of "world s"])
      case subscribe
      with inv show ?thesis
        by (simp add: unfold ex unblock_inv_def)
    next
      case blocked
      with inv show ?thesis
        by (simp add: unfold ex)
    next
      case (signal sg rest)
      with inv upd show ?thesis
        by (simp add: unfold ex unblock_inv_def)
    next
      case closed
      with inv upd show ?thesis
        by (simp add: unfold ex unblock_inv_def)
    qed
  next
    assume i: "i = Suc 0"
    from i have ex: "execute (program_group impl ! i) (world s) = server_execute impl (world s)"
      by (simp add: server_actor_def)
    from i have upd: "(finished s)[i := True] ! 0 = finished s ! 0" by simp
    from server_execute_frame [where impl = impl and w = "world s"] inv upd show ?thesis
      by (auto simp: unfold ex unblock_inv_def split: progress.splits)
  qed
qed

lemma unblock_inv_orchestrator_step:
  assumes inv: "unblock_inv n s"
  shows "unblock_inv n (orchestrator_step (program_group impl) s)"
proof (cases "pc s")
  case WaitFirst
  with inv show ?thesis
    by (cases "errors s") (simp_all add: orchestrator_step_def unblock_inv_def)
next
  case (Drain k e)
  with inv show ?thesis
    by (cases "errors s") (simp_all add: orchestrator_step_def unblock_inv_def)
next
  case (Returned e)
  with inv show ?thesis by (simp add: orchestrator_step_def)
next
  case (FanOut k e)
  consider "k = 0" | "k = Suc 0" | "\<not> k < 2" by arith
  then show ?thesis
  proof cases
    case 1
    show ?thesis
    proof (cases rule: watcher_interrupt_cases [where w = "world s" and e = e])
      case close
      with inv FanOut 1 show ?thesis
        by (simp add: orchestrator_step_def signal_watcher_def unblock_inv_def)
    next
      case panic
      with inv FanOut 1 show ?thesis
        by (simp add: orchestrator_step_def signal_watcher_def unblock_inv_def)
    qed
  next
    case 2
    from server_interrupt_frame [where impl = impl and e = e and w = "world s"] inv FanOut 2
    show ?thesis
      by (auto simp: orchestrator_step_def server_actor_def unblock_inv_def
          split: sum.splits prod.splits)
  next
    case 3
    with inv FanOut show ?thesis
      by (simp add: orchestrator_step_def unblock_inv_def)
  qed
qed

lemma unblock_inv_environment_step:
  assumes inv: "unblock_inv n s"
  shows "unblock_inv n (environment_step deliver sg s)"
proof (cases "deliver sg (world s)")
  case (Inl c)
  with inv show ?thesis by (simp add: environment_step_def unblock_inv_def)
next
  case (Inr w')
  from deliver_Inr [OF Inr] obtain c where
    c: "chan_try_send sg (sig (world s)) = Inr c"
    and w': "w' = (world s)\<lparr>sig := c, trace := trace (world s) @ [Signalled sg]\<rparr>" by blast
  from chan_try_send_Inr [OF c] have "ch_closed c = ch_closed (sig (world s))" by simp
  with inv Inr w' show ?thesis
    by (simp add: environment_step_def unblock_inv_def)
qed

lemma unblock_inv_step:
  "unblock_inv n s \<Longrightarrow> unblock_inv n (step (program_group impl) deliver c s)"
  by (simp add: step_def unblock_inv_actor_step unblock_inv_orchestrator_step
      unblock_inv_environment_step split: opc.splits choice.splits)

lemma unblock_inv_exec:
  "unblock_inv n s \<Longrightarrow> unblock_inv n (exec (program_group impl) deliver sched s)"
  by (induction sched arbitrary: s) (simp_all add: unblock_inv_step)

lemma unblock_inv_Run:
  "unblock_inv (length t0) (Run (program_group impl) deliver sched (initial_world s0 t0))"
  by (simp add: Run_def unblock_inv_exec unblock_inv_init)

text \<open>The two example runs, evaluated.\<close>

lemmas run_defs =
  Run_def Run_init_def step_def actor_step_def orchestrator_step_def environment_step_def
  program_group_def signal_watcher_def server_actor_def watcher_execute_def watcher_interrupt_def
  server_execute_def server_interrupt_def deliver_def chan_recv_def chan_close_def
  chan_try_send_def make_chan_def initial_world_def example_server_def

lemma signal_run:
  "Run (program_group (example_server None)) deliver signal_schedule (initial_world False []) =
     \<lparr>world =
        \<lparr>sig = \<lparr>ch_cap = 1, ch_buf = [], ch_closed = True\<rparr>,
         handlers = {os_Interrupt, SIGTERM}, watcher_pc = Receiving, srv = True,
         trace = [Notify {os_Interrupt, SIGTERM}, Signalled SIGINT,
                  Log LevelInfo ''caught interrupt'' None]\<rparr>,
      finished = [True, True], errors = [], pc = Returned None,
      completed = [(0, None), (1, None)],
      interrupted = [(0, None), (1, None)],
      crashed = None\<rparr>"
  by (simp add: run_defs signal_schedule_def Let_def)

lemma failure_run:
  "Run (program_group (example_server (Some bind_error))) deliver failure_schedule
     (initial_world False []) =
     \<lparr>world =
        \<lparr>sig = \<lparr>ch_cap = 1, ch_buf = [], ch_closed = True\<rparr>,
         handlers = {os_Interrupt, SIGTERM}, watcher_pc = Receiving, srv = True,
         trace = [Log LevelInfo ''caught interrupt'' None, Notify {os_Interrupt, SIGTERM}]\<rparr>,
      finished = [True, True], errors = [], pc = Returned (Some bind_error),
      completed = [(1, Some bind_error), (0, None)],
      interrupted = [(0, Some bind_error), (1, Some bind_error)],
      crashed = None\<rparr>"
  by (simp add: run_defs failure_schedule_def Let_def)

section \<open>The signal watcher's interrupt and run\<close>

text \<open>
  Claim C6, as stated, fails: two calls of the signal watcher's interrupt in a row, from the
  state in which \<open>main\<close> starts the group, end in the panic of \<open>close(sig)\<close> on a closed
  channel.
\<close>

theorem watcher_interrupt_twice_panics:
  "interrupt_twice signal_watcher None (initial_world False []) =
     Inl (''close of closed channel'',
          \<lparr>sig = \<lparr>ch_cap = 1, ch_buf = [], ch_closed = True\<rparr>, handlers = {},
           watcher_pc = Subscribing, srv = False,
           trace = [Log LevelInfo ''caught interrupt'' None,
                    Log LevelInfo ''caught interrupt'' None]\<rparr>)"
  by (simp add: interrupt_twice_def signal_watcher_def watcher_interrupt_def chan_close_def
      initial_world_def make_chan_def Let_def)

text \<open>
  Claim C6, amended. The first call of the signal watcher's interrupt closes the channel
  and does not panic, wherever \<open>run\<close> stands at that moment, and leaves the buffer and
  \<open>run\<close>'s position alone; on a channel already closed the call panics; so a second call
  after a first one always panics: the interrupt is not idempotent.
\<close>

theorem watcher_interrupt_once_then_panics:
  "(\<not> ch_closed (sig w) \<longrightarrow>
      (\<exists>w'. watcher_interrupt e w = Inr w' \<and> ch_closed (sig w') \<and>
            ch_buf (sig w') = ch_buf (sig w) \<and> watcher_pc w' = watcher_pc w)) \<and>
   (ch_closed (sig w) \<longrightarrow> (\<exists>w'. watcher_interrupt e w = Inl (''close of closed channel'', w'))) \<and>
   (\<forall>w1. watcher_interrupt e w = Inr w1 \<longrightarrow>
      (\<exists>w2. watcher_interrupt e' w1 = Inl (''close of closed channel'', w2)))"
proof (intro conjI impI allI)
  assume "\<not> ch_closed (sig w)"
  then show "\<exists>w'. watcher_interrupt e w = Inr w' \<and> ch_closed (sig w') \<and>
            ch_buf (sig w') = ch_buf (sig w) \<and> watcher_pc w' = watcher_pc w"
    by (cases rule: watcher_interrupt_cases [where w = w and e = e]) simp_all
next
  assume "ch_closed (sig w)"
  then show "\<exists>w'. watcher_interrupt e w = Inl (''close of closed channel'', w')"
    by (cases rule: watcher_interrupt_cases [where w = w and e = e]) simp_all
next
  fix w1
  assume first: "watcher_interrupt e w = Inr w1"
  then have "ch_closed (sig w1)"
    by (cases rule: watcher_interrupt_cases [where w = w and e = e]) auto
  then show "\<exists>w2. watcher_interrupt e' w1 = Inl (''close of closed channel'', w2)"
    by (cases rule: watcher_interrupt_cases [where w = w1 and e = e']) simp_all
qed

theorem watcher_interrupt_once_then_panics_witness:
  "\<not> ch_closed (sig waiting_world) \<and>
   (\<exists>w'. watcher_interrupt None waiting_world = Inr w' \<and> ch_closed (sig w')) \<and>
   ch_closed (sig closed_world) \<and>
   (\<exists>w'. watcher_interrupt None closed_world = Inl (''close of closed channel'', w')) \<and>
   watcher_interrupt None waiting_world =
     Inr (closed_world\<lparr>trace := [Log LevelInfo ''caught interrupt'' None]\<rparr>) \<and>
   (\<exists>w2. watcher_interrupt None (closed_world\<lparr>trace := [Log LevelInfo ''caught interrupt'' None]\<rparr>) =
           Inl (''close of closed channel'', w2))"
proof -
  have open_ch: "\<not> ch_closed (sig waiting_world)"
    by (simp add: waiting_world_def make_chan_def)
  have closed_ch: "ch_closed (sig closed_world)"
    by (simp add: closed_world_def waiting_world_def)
  have first: "watcher_interrupt None waiting_world =
      Inr (closed_world\<lparr>trace := [Log LevelInfo ''caught interrupt'' None]\<rparr>)"
    by (simp add: watcher_interrupt_def chan_close_def closed_world_def waiting_world_def
        make_chan_def Let_def)
  from watcher_interrupt_once_then_panics [of waiting_world None None] open_ch first
  have a: "(\<exists>w'. watcher_interrupt None waiting_world = Inr w' \<and> ch_closed (sig w'))"
    and c: "\<exists>w2. watcher_interrupt None
               (closed_world\<lparr>trace := [Log LevelInfo ''caught interrupt'' None]\<rparr>) =
             Inl (''close of closed channel'', w2)"
    by auto
  from watcher_interrupt_once_then_panics [of closed_world None None] closed_ch
  have b: "\<exists>w'. watcher_interrupt None closed_world = Inl (''close of closed channel'', w')"
    by blast
  from open_ch closed_ch first a b c show ?thesis by blast
qed

text \<open>
  Claim C8. While the signal watcher's \<open>run\<close> waits at \<open><-sig\<close> with no signal buffered
  and the channel open, it cannot move. With a signal in the buffer it returns nil. A
  subscribed signal that arrives while it waits on the open channel of capacity at least 1
  is buffered, and the next move of \<open>run\<close> returns nil. Once the channel is closed, which
  is what its interrupt does, the waiting \<open>run\<close> returns: a \<open>run\<close> that was blocked
  returns nil at its next move after the interrupt. And in every run of the program,
  \<open>run\<close> has returned only if a signal was relayed since the start or the channel has been
  closed by a call of its interrupt.
\<close>

theorem watcher_run_blocks_until_signal_or_interrupt:
  "(watcher_pc w = Receiving \<and> ch_buf (sig w) = [] \<and> \<not> ch_closed (sig w) \<longrightarrow>
      watcher_execute w = Blocked) \<and>
   (watcher_pc w = Receiving \<and> ch_buf (sig w) \<noteq> [] \<longrightarrow>
      (\<exists>w'. watcher_execute w = Return w' None)) \<and>
   (watcher_pc w = Receiving \<and> \<not> ch_closed (sig w) \<and> 1 \<le> ch_cap (sig w) \<and> sg \<in> handlers w \<longrightarrow>
      (\<exists>w1 w2. deliver sg w = Inr w1 \<and> watcher_execute w1 = Return w2 None)) \<and>
   (watcher_pc w = Receiving \<and> ch_buf (sig w) = [] \<and> ch_closed (sig w) \<longrightarrow>
      watcher_execute w = Return w None) \<and>
   (watcher_execute w = Blocked \<longrightarrow>
      (\<exists>w'. watcher_interrupt e w = Inr w' \<and> ch_closed (sig w') \<and>
            watcher_execute w' = Return w' None)) \<and>
   (finished (Run (program_group impl) deliver sched (initial_world s0 t0)) ! 0 \<longrightarrow>
      list_ex is_Signalled
        (drop (length t0)
           (trace (world (Run (program_group impl) deliver sched (initial_world s0 t0))))) \<or>
      ch_closed (sig (world (Run (program_group impl) deliver sched (initial_world s0 t0)))) \<and>
      list_ex (\<lambda>c. fst c = 0)
        (interrupted (Run (program_group impl) deliver sched (initial_world s0 t0))))"
proof (intro conjI impI)
  assume "watcher_pc w = Receiving \<and> ch_buf (sig w) = [] \<and> \<not> ch_closed (sig w)"
  then show "watcher_execute w = Blocked"
    by (cases rule: watcher_execute_cases [of w]) simp_all
next
  assume "watcher_pc w = Receiving \<and> ch_buf (sig w) \<noteq> []"
  then show "\<exists>w'. watcher_execute w = Return w' None"
    by (cases rule: watcher_execute_cases [of w]) simp_all
next
  assume a: "watcher_pc w = Receiving \<and> \<not> ch_closed (sig w) \<and> 1 \<le> ch_cap (sig w) \<and>
    sg \<in> handlers w"
  define c where "c = (if length (ch_buf (sig w)) < ch_cap (sig w)
    then (sig w)\<lparr>ch_buf := ch_buf (sig w) @ [sg]\<rparr> else sig w)"
  define w1 where "w1 = w\<lparr>sig := c, trace := trace w @ [Signalled sg]\<rparr>"
  from a have send: "chan_try_send sg (sig w) = Inr c"
    by (simp add: chan_try_send_def c_def)
  with a have d: "deliver sg w = Inr w1"
    by (simp add: deliver_def w1_def)
  from a have "ch_buf c \<noteq> []"
    by (auto simp: c_def)
  with a have "watcher_pc w1 = Receiving \<and> ch_buf (sig w1) \<noteq> []"
    by (simp add: w1_def)
  then have "\<exists>w2. watcher_execute w1 = Return w2 None"
    by (cases rule: watcher_execute_cases [of w1]) simp_all
  with d show "\<exists>w1 w2. deliver sg w = Inr w1 \<and> watcher_execute w1 = Return w2 None"
    by blast
next
  assume "watcher_pc w = Receiving \<and> ch_buf (sig w) = [] \<and> ch_closed (sig w)"
  then show "watcher_execute w = Return w None"
    by (cases rule: watcher_execute_cases [of w]) simp_all
next
  assume b: "watcher_execute w = Blocked"
  then have w: "watcher_pc w = Receiving" "ch_buf (sig w) = []" "\<not> ch_closed (sig w)"
    by (cases rule: watcher_execute_cases [of w]; simp)+
  define w' where
    "w' = w\<lparr>trace := trace w @ [Log LevelInfo ''caught interrupt'' None],
            sig := (sig w)\<lparr>ch_closed := True\<rparr>\<rparr>"
  from w have i: "watcher_interrupt e w = Inr w'"
    by (simp add: watcher_interrupt_def chan_close_def w'_def Let_def)
  from w have w': "watcher_pc w' = Receiving" "ch_buf (sig w') = []" "ch_closed (sig w')"
    by (simp_all add: w'_def)
  then have "watcher_execute w' = Return w' None"
    by (cases rule: watcher_execute_cases [of w']) simp_all
  with i w'(3) show "\<exists>w'. watcher_interrupt e w = Inr w' \<and> ch_closed (sig w') \<and>
            watcher_execute w' = Return w' None"
    by blast
next
  let ?s = "Run (program_group impl) deliver sched (initial_world s0 t0)"
  assume fin: "finished ?s ! 0"
  from done_inv_Run [of "program_group impl" deliver sched "initial_world s0 t0"]
  have "length (finished ?s) = 2"
    by (simp add: done_inv_def)
  with fin unblock_inv_Run [of t0 impl sched s0]
  show "list_ex is_Signalled (drop (length t0) (trace (world ?s))) \<or>
        ch_closed (sig (world ?s)) \<and> list_ex (\<lambda>c. fst c = 0) (interrupted ?s)"
    by (auto simp add: unblock_inv_def)
qed

theorem watcher_run_blocks_until_signal_or_interrupt_witness:
  "watcher_pc waiting_world = Receiving \<and> ch_buf (sig waiting_world) = [] \<and>
   \<not> ch_closed (sig waiting_world) \<and> watcher_execute waiting_world = Blocked \<and>
   1 \<le> ch_cap (sig waiting_world) \<and> SIGTERM \<in> handlers waiting_world \<and>
   (\<exists>w1 w2. deliver SIGTERM waiting_world = Inr w1 \<and> watcher_execute w1 = Return w2 None) \<and>
   (\<exists>w'. watcher_interrupt None waiting_world = Inr w' \<and> ch_closed (sig w') \<and>
         watcher_execute w' = Return w' None) \<and>
   watcher_pc closed_world = Receiving \<and> ch_buf (sig closed_world) = [] \<and>
   ch_closed (sig closed_world) \<and> watcher_execute closed_world = Return closed_world None \<and>
   finished (Run (program_group (example_server None)) deliver signal_schedule
               (initial_world False [])) ! 0 \<and>
   (list_ex is_Signalled
      (drop (length ([] :: event list))
         (trace (world (Run (program_group (example_server None)) deliver signal_schedule
                          (initial_world False []))))) \<or>
    ch_closed (sig (world (Run (program_group (example_server None)) deliver signal_schedule
                             (initial_world False [])))) \<and>
    list_ex (\<lambda>c. fst c = 0)
      (interrupted (Run (program_group (example_server None)) deliver signal_schedule
                      (initial_world False []))))"
proof -
  have h1: "watcher_pc waiting_world = Receiving \<and> ch_buf (sig waiting_world) = [] \<and>
      \<not> ch_closed (sig waiting_world)"
    by (simp add: waiting_world_def make_chan_def)
  have h2: "1 \<le> ch_cap (sig waiting_world) \<and> SIGTERM \<in> handlers waiting_world"
    by (simp add: waiting_world_def make_chan_def)
  have h3: "finished (Run (program_group (example_server None)) deliver signal_schedule
               (initial_world False [])) ! 0"
    by (simp add: signal_run)
  have h4: "watcher_pc closed_world = Receiving \<and> ch_buf (sig closed_world) = [] \<and>
      ch_closed (sig closed_world)"
    by (simp add: closed_world_def waiting_world_def)
  from watcher_run_blocks_until_signal_or_interrupt
         [of waiting_world SIGTERM None "example_server None" signal_schedule False "[]"]
       h1 h2 h3
  have a: "watcher_execute waiting_world = Blocked"
    and b: "\<exists>w1 w2. deliver SIGTERM waiting_world = Inr w1 \<and> watcher_execute w1 = Return w2 None"
    and c: "list_ex is_Signalled
      (drop (length ([] :: event list))
         (trace (world (Run (program_group (example_server None)) deliver signal_schedule
                          (initial_world False []))))) \<or>
    ch_closed (sig (world (Run (program_group (example_server None)) deliver signal_schedule
                             (initial_world False [])))) \<and>
    list_ex (\<lambda>c. fst c = 0)
      (interrupted (Run (program_group (example_server None)) deliver signal_schedule
                      (initial_world False [])))"
    by blast+
  from watcher_run_blocks_until_signal_or_interrupt
         [of waiting_world SIGTERM None "example_server None" signal_schedule False "[]"] a
  have d: "\<exists>w'. watcher_interrupt None waiting_world = Inr w' \<and> ch_closed (sig w') \<and>
         watcher_execute w' = Return w' None"
    by blast
  from watcher_run_blocks_until_signal_or_interrupt
         [of closed_world SIGTERM None "example_server None" signal_schedule False "[]"] h4
  have e: "watcher_execute closed_world = Return closed_world None"
    by blast
  from h1 h2 h3 h4 a b c d e show ?thesis
    by blast
qed

text \<open>
  Claim C9. When the signal watcher's \<open>run\<close> is unblocked by the closing of its channel
  and not by a signal, it returns nil; \<open>run\<close> never returns anything but nil; so in every
  run of the program each completion of the signal watcher carries nil, and when the
  signal watcher is the first to complete, \<open>Run\<close> returns nil.
\<close>

theorem watcher_completion_is_nil:
  "(watcher_pc w = Receiving \<and> ch_buf (sig w) = [] \<and> ch_closed (sig w) \<longrightarrow>
      watcher_execute w = Return w None) \<and>
   (\<forall>w' r. watcher_execute w = Return w' r \<longrightarrow> r = None) \<and>
   (\<forall>c \<in> set (completed (Run (program_group impl) env sched w0)). fst c = 0 \<longrightarrow> snd c = None) \<and>
   (pc (Run (program_group impl) env sched w0) = Returned e \<and>
    fst (hd (completed (Run (program_group impl) env sched w0))) = 0 \<longrightarrow> e = None)"
proof (intro conjI impI allI ballI)
  assume "watcher_pc w = Receiving \<and> ch_buf (sig w) = [] \<and> ch_closed (sig w)"
  then show "watcher_execute w = Return w None"
    by (cases rule: watcher_execute_cases [of w]) simp_all
next
  fix w' r
  assume "watcher_execute w = Return w' r"
  then show "r = None" by (rule watcher_returns_nil)
next
  fix c
  assume "c \<in> set (completed (Run (program_group impl) env sched w0))" and "fst c = 0"
  then show "snd c = None" by (rule watcher_completes_nil)
next
  let ?s = "Run (program_group impl) env sched w0"
  assume a: "pc ?s = Returned e \<and> fst (hd (completed ?s)) = 0"
  with chan_inv_Run [of "program_group impl" env sched w0]
  have ne: "completed ?s \<noteq> []" and e: "snd (hd (completed ?s)) = e"
    by (simp_all add: chan_inv_def)
  from ne have "hd (completed ?s) \<in> set (completed ?s)" by simp
  with a have "snd (hd (completed ?s)) = None"
    by (intro watcher_completes_nil) simp_all
  with e show "e = None" by simp
qed

theorem watcher_completion_is_nil_witness:
  "watcher_pc closed_world = Receiving \<and> ch_buf (sig closed_world) = [] \<and>
   ch_closed (sig closed_world) \<and> watcher_execute closed_world = Return closed_world None \<and>
   (\<exists>w'. watcher_execute signalled_world = Return w' None) \<and>
   (1, Some bind_error) \<in> set (completed (Run (program_group (example_server (Some bind_error)))
       deliver failure_schedule (initial_world False []))) \<and>
   (0, None) \<in> set (completed (Run (program_group (example_server (Some bind_error)))
       deliver failure_schedule (initial_world False []))) \<and>
   pc (Run (program_group (example_server None)) deliver signal_schedule
         (initial_world False [])) = Returned None \<and>
   fst (hd (completed (Run (program_group (example_server None)) deliver signal_schedule
         (initial_world False [])))) = 0"
proof -
  have h1: "watcher_pc closed_world = Receiving \<and> ch_buf (sig closed_world) = [] \<and>
      ch_closed (sig closed_world)"
    by (simp add: closed_world_def waiting_world_def)
  have h2: "\<exists>w'. watcher_execute signalled_world = Return w' None"
    by (simp add: watcher_execute_def chan_recv_def signalled_world_def waiting_world_def)
  have h3: "completed (Run (program_group (example_server (Some bind_error)))
       deliver failure_schedule (initial_world False [])) = [(1, Some bind_error), (0, None)]"
    by (simp add: failure_run)
  have h4: "pc (Run (program_group (example_server None)) deliver signal_schedule
         (initial_world False [])) = Returned None \<and>
     fst (hd (completed (Run (program_group (example_server None)) deliver signal_schedule
         (initial_world False [])))) = 0"
    by (simp add: signal_run)
  from watcher_completion_is_nil [of closed_world "example_server None" deliver
         signal_schedule "initial_world False []" None] h1 h4
  have "watcher_execute closed_world = Return closed_world None" by blast
  with h1 h2 h3 h4 show ?thesis by simp
qed

section \<open>main: the paths through the validation and the exit\<close>

lemma main_invalid_query:
  assumes "ParseRequestURI (parse_rest d) (metricsQueryEndpoint opts) = Inl err"
  shows "main d opts getenv sched =
    \<lparr>events = startup_events opts getenv @
        [Log LevelError ''--metrics.query.endpoint is invalid'' (Some err),
         TracerClose, Log LevelInfo ''exiting'' None],
     status = Exited 0\<rparr>"
  using assms
  by (simp add: main_def startup_events_def return_main_def emit_def defer_call_def Let_def)

lemma main_invalid_write:
  assumes "ParseRequestURI (parse_rest d) (metricsQueryEndpoint opts) = Inr q"
    and "ParseRequestURI (parse_rest d) (metricsWriteEndpoint opts) = Inl err"
  shows "main d opts getenv sched =
    \<lparr>events = startup_events opts getenv @
        [Log LevelError ''--metrics.write.endpoint is invalid'' (Some err),
         TracerClose, Log LevelInfo ''exiting'' None],
     status = Exited 0\<rparr>"
  using assms
  by (simp add: main_def startup_events_def return_main_def emit_def defer_call_def Let_def)

lemma main_invalid_grace:
  assumes "ParseRequestURI (parse_rest d) (metricsQueryEndpoint opts) = Inr q"
    and "ParseRequestURI (parse_rest d) (metricsWriteEndpoint opts) = Inr u"
    and "ParseDuration d (gracePeriod opts) = Inl err"
  shows "main d opts getenv sched =
    \<lparr>events = startup_events opts getenv @
        [Log LevelError ''--grace-period is invalid'' (Some err),
         TracerClose, Log LevelInfo ''exiting'' None],
     status = Exited 0\<rparr>"
  using assms
  by (simp add: main_def startup_events_def return_main_def emit_def defer_call_def Let_def)

lemma main_valid:
  assumes "ParseRequestURI (parse_rest d) (metricsQueryEndpoint opts) = Inr q"
    and "ParseRequestURI (parse_rest d) (metricsWriteEndpoint opts) = Inr u"
    and "ParseDuration d (gracePeriod opts) = Inr g"
  shows "main d opts getenv sched =
    main_serve d opts getenv sched
      \<lparr>out = startup_events opts getenv,
       deferred = [TracerClose, Log LevelInfo ''exiting'' None]\<rparr> q u g"
  using assms
  by (simp add: main_def startup_events_def emit_def defer_call_def Let_def)

text \<open>main.go:102-159 in terms of the state in which the group stopped.\<close>

lemma emit_proc: "emit e \<lparr>out = t, deferred = ds\<rparr> = \<lparr>out = t @ [e], deferred = ds\<rparr>"
  by (simp add: emit_def)

lemma defer_call_proc: "defer_call e \<lparr>out = t, deferred = ds\<rparr> = \<lparr>out = t, deferred = e # ds\<rparr>"
  by (simp add: defer_call_def)

lemma main_serve_unfold:
  "main_serve d opts getenv sched
      \<lparr>out = t, deferred = ds\<rparr> q u g =
   (let s = Run (program_group (server d)) deliver sched
              (initial_world (server_New (server d) (serve_config opts getenv q u g))
                 (t @ serve_events d opts getenv q u g))
    in case crashed s of
         Some (PanicMain m) \<Rightarrow>
           \<lparr>events = trace (world s) @ undo_events d @ ds, status = Died (PanicMain m)\<rparr>
       | Some c \<Rightarrow> \<lparr>events = trace (world s), status = Died c\<rparr>
       | None \<Rightarrow>
           (case pc s of
              Returned (Some err) \<Rightarrow>
                \<lparr>events = trace (world s) @ [Log LevelError ''observatorium failed'' (Some err)],
                 status = Exited 1\<rparr>
            | Returned None \<Rightarrow> \<lparr>events = trace (world s), status = Exited 0\<rparr>
            | _ \<Rightarrow> \<lparr>events = trace (world s), status = StillRunning\<rparr>))"
  by (cases "maxprocs_Set d")
     (simp_all add: main_serve_def serve_events_def serve_config_def emit_proc defer_call_proc
        defer_undo_def undo_events_def os_Exit_def Let_def
        cong: option.case_cong crash.case_cong opc.case_cong)

lemma startup_events_simps:
  "GroupRun \<notin> set (startup_events opts getenv)"
  "TracerClose \<notin> set (startup_events opts getenv)"
  "MaxprocsUndo \<notin> set (startup_events opts getenv)"
  "Log lv msg err \<notin> set (startup_events opts getenv)"
  "\<not> list_ex is_ServerNew (startup_events opts getenv)"
  "\<not> list_ex is_Notify (startup_events opts getenv)"
  "filter is_error_log (startup_events opts getenv) = []"
  by (simp_all add: startup_events_def)

lemma serve_events_simps:
  "TracerClose \<notin> set (serve_events d opts getenv q u g)"
  "MaxprocsUndo \<notin> set (serve_events d opts getenv q u g)"
  "Log LevelInfo ''exiting'' None \<notin> set (serve_events d opts getenv q u g)"
  "\<not> list_ex is_Notify (serve_events d opts getenv q u g)"
  "MakeChan 1 \<in> set (serve_events d opts getenv q u g)"
  "GroupRun \<in> set (serve_events d opts getenv q u g)"
  by (auto simp add: serve_events_def loggerAdapter_def list_ex_iff split: option.splits)

lemma watcher_event_not_error: "watcher_event ev \<Longrightarrow> \<not> is_error_log ev"
  by (cases ev) auto

lemma watcher_events_plain:
  assumes "list_all watcher_event ext"
  shows "TracerClose \<notin> set ext" and "MaxprocsUndo \<notin> set ext"
    and "Log LevelInfo ''exiting'' None \<notin> set ext" and "filter is_error_log ext = []"
  using assms by (auto simp add: list_all_iff filter_empty_conv watcher_event_not_error)

lemma main_invalid:
  assumes "isl (ParseRequestURI (parse_rest d) (metricsQueryEndpoint opts)) \<or>
           isl (ParseRequestURI (parse_rest d) (metricsWriteEndpoint opts)) \<or>
           isl (ParseDuration d (gracePeriod opts))"
  shows "\<exists>msg err.
     msg \<in> set [''--metrics.query.endpoint is invalid'', ''--metrics.write.endpoint is invalid'',
                ''--grace-period is invalid''] \<and>
     main d opts getenv sched =
       \<lparr>events = startup_events opts getenv @
          [Log LevelError msg (Some err), TracerClose, Log LevelInfo ''exiting'' None],
        status = Exited 0\<rparr>"
proof (cases "ParseRequestURI (parse_rest d) (metricsQueryEndpoint opts)")
  case (Inl err)
  from main_invalid_query [OF Inl] show ?thesis by simp
next
  case q: (Inr q)
  show ?thesis
  proof (cases "ParseRequestURI (parse_rest d) (metricsWriteEndpoint opts)")
    case (Inl err)
    from main_invalid_write [OF q Inl] show ?thesis by simp
  next
    case u: (Inr u)
    from assms q u obtain err where "ParseDuration d (gracePeriod opts) = Inl err"
      by (cases "ParseDuration d (gracePeriod opts)") auto
    from main_invalid_grace [OF q u this] show ?thesis by simp
  qed
qed

lemma main_serve_shape:
  obtains ext tail where
    "events (main_serve d opts getenv sched \<lparr>out = t, deferred = ds\<rparr> q u g) =
       (t @ serve_events d opts getenv q u g) @ ext @ tail"
    and "list_all watcher_event ext"
    and "(status (main_serve d opts getenv sched \<lparr>out = t, deferred = ds\<rparr> q u g) = Exited 0 \<and>
            tail = []) \<or>
         (\<exists>err. status (main_serve d opts getenv sched \<lparr>out = t, deferred = ds\<rparr> q u g) = Exited 1 \<and>
            tail = [Log LevelError ''observatorium failed'' (Some err)]) \<or>
         (\<exists>m. status (main_serve d opts getenv sched \<lparr>out = t, deferred = ds\<rparr> q u g) =
                 Died (PanicMain m) \<and> tail = undo_events d @ ds) \<or>
         (\<exists>c. status (main_serve d opts getenv sched \<lparr>out = t, deferred = ds\<rparr> q u g) = Died c \<and>
            tail = []) \<or>
         (status (main_serve d opts getenv sched \<lparr>out = t, deferred = ds\<rparr> q u g) = StillRunning \<and>
            tail = [])"
proof -
  define s where "s = Run (program_group (server d)) deliver sched
                   (initial_world (server_New (server d) (serve_config opts getenv q u g))
                      (t @ serve_events d opts getenv q u g))"
  define M where "M = main_serve d opts getenv sched \<lparr>out = t, deferred = ds\<rparr> q u g"
  have "trace_inv (t @ serve_events d opts getenv q u g) (world s)"
    unfolding s_def by (rule trace_inv_Run)
  then obtain ext where ext: "trace (world s) = (t @ serve_events d opts getenv q u g) @ ext"
    and we: "list_all watcher_event ext"
    unfolding trace_inv_def by blast
  have M: "M = (case crashed s of
              Some (PanicMain m) \<Rightarrow> \<lparr>events = trace (world s) @ undo_events d @ ds, status = Died (PanicMain m)\<rparr>
            | Some c \<Rightarrow> \<lparr>events = trace (world s), status = Died c\<rparr>
            | None \<Rightarrow> (case pc s of
                 Returned (Some err) \<Rightarrow> \<lparr>events = trace (world s) @ [Log LevelError ''observatorium failed'' (Some err)], status = Exited 1\<rparr>
               | Returned None \<Rightarrow> \<lparr>events = trace (world s), status = Exited 0\<rparr>
               | _ \<Rightarrow> \<lparr>events = trace (world s), status = StillRunning\<rparr>))"
    unfolding M_def s_def main_serve_unfold Let_def ..
  have "\<exists>tail. events M = (t @ serve_events d opts getenv q u g) @ ext @ tail \<and>
        ((status M = Exited 0 \<and> tail = []) \<or>
         (\<exists>err. status M = Exited 1 \<and> tail = [Log LevelError ''observatorium failed'' (Some err)]) \<or>
         (\<exists>m. status M = Died (PanicMain m) \<and> tail = undo_events d @ ds) \<or>
         (\<exists>c. status M = Died c \<and> tail = []) \<or>
         (status M = StillRunning \<and> tail = []))"
    unfolding M ext by (simp split: option.splits crash.splits opc.splits)
  then show thesis using that we unfolding M_def by blast
qed

lemma main_events_shape:
  obtains A ext tail where
    "events (main d opts getenv sched) = A @ ext @ tail"
    and "\<not> list_ex is_Notify A" and "list_all watcher_event ext" and "\<not> list_ex is_Notify tail"
    and "ext = [] \<or> MakeChan 1 \<in> set A"
proof (cases "isl (ParseRequestURI (parse_rest d) (metricsQueryEndpoint opts)) \<or>
           isl (ParseRequestURI (parse_rest d) (metricsWriteEndpoint opts)) \<or>
           isl (ParseDuration d (gracePeriod opts))")
  case True
  from main_invalid [OF True, of getenv sched] obtain msg err where
    M: "main d opts getenv sched =
       \<lparr>events = startup_events opts getenv @
          [Log LevelError msg (Some err), TracerClose, Log LevelInfo ''exiting'' None],
        status = Exited 0\<rparr>"
    by blast
  show thesis
  proof (rule that [of "events (main d opts getenv sched)" "[]" "[]"])
    show "\<not> list_ex is_Notify (events (main d opts getenv sched))"
      unfolding M by (simp add: startup_events_simps)
  qed simp_all
next
  case False
  then obtain q u g where q: "ParseRequestURI (parse_rest d) (metricsQueryEndpoint opts) = Inr q"
    and u: "ParseRequestURI (parse_rest d) (metricsWriteEndpoint opts) = Inr u"
    and g: "ParseDuration d (gracePeriod opts) = Inr g"
    by (cases "ParseRequestURI (parse_rest d) (metricsQueryEndpoint opts)";
        cases "ParseRequestURI (parse_rest d) (metricsWriteEndpoint opts)";
        cases "ParseDuration d (gracePeriod opts)") auto
  note M = main_valid [OF q u g, of getenv sched]
  obtain ext tail where
    ev: "events (main d opts getenv sched) =
       (startup_events opts getenv @ serve_events d opts getenv q u g) @ ext @ tail"
    and we: "list_all watcher_event ext"
    and tail: "tail = [] \<or> (\<exists>err. tail = [Log LevelError ''observatorium failed'' (Some err)]) \<or>
       tail = undo_events d @ [TracerClose, Log LevelInfo ''exiting'' None]"
    unfolding M
    by (rule main_serve_shape [of d opts getenv sched "startup_events opts getenv"
           "[TracerClose, Log LevelInfo ''exiting'' None]" q u g]) blast
  show thesis
  proof (rule that [OF ev _ we])
    show "\<not> list_ex is_Notify (startup_events opts getenv @ serve_events d opts getenv q u g)"
      by (simp add: startup_events_simps serve_events_simps)
    show "\<not> list_ex is_Notify tail"
      using tail by (auto simp add: undo_events_def loggerAdapter_def list_ex_iff)
    show "ext = [] \<or> MakeChan 1 \<in> set (startup_events opts getenv @ serve_events d opts getenv q u g)"
      using serve_events_simps(5) [of d opts getenv q u g] by simp
  qed
qed

lemma Notify_within:
  assumes "A @ ext @ tail = pre @ Notify S # post"
    and "\<not> list_ex is_Notify A" and "\<not> list_ex is_Notify tail"
  shows "Notify S \<in> set ext \<and> set A \<subseteq> set pre"
proof
  have "Notify S \<in> set (A @ ext @ tail)"
    unfolding assms(1) by simp
  moreover have "Notify S \<notin> set A" "Notify S \<notin> set tail"
    using assms(2,3) by (auto simp add: list_ex_iff)
  ultimately show "Notify S \<in> set ext"
    by simp
  have A: "Notify S \<notin> set A"
    using assms(2) by (auto simp add: list_ex_iff)
  from assms(1) obtain us where
    "(A = pre @ us \<and> us @ ext @ tail = Notify S # post) \<or>
     (A @ us = pre \<and> ext @ tail = us @ Notify S # post)"
    unfolding append_eq_append_conv2 by blast
  then show "set A \<subseteq> set pre"
  proof
    assume h: "A = pre @ us \<and> us @ ext @ tail = Notify S # post"
    show ?thesis
    proof (cases us)
      case Nil
      with h show ?thesis by simp
    next
      case (Cons x xs)
      with h have "x = Notify S" by simp
      with h Cons A show ?thesis by simp
    qed
  next
    assume "A @ us = pre \<and> ext @ tail = us @ Notify S # post"
    then show ?thesis by auto
  qed
qed

lemma signal_run_trace:
  "Run (program_group (example_server None)) deliver signal_schedule (initial_world s0 t) =
     \<lparr>world =
        \<lparr>sig = \<lparr>ch_cap = 1, ch_buf = [], ch_closed = True\<rparr>,
         handlers = {os_Interrupt, SIGTERM}, watcher_pc = Receiving, srv = True,
         trace = t @ [Notify {os_Interrupt, SIGTERM}, Signalled SIGINT,
                  Log LevelInfo ''caught interrupt'' None]\<rparr>,
      finished = [True, True], errors = [], pc = Returned None,
      completed = [(0, None), (1, None)],
      interrupted = [(0, None), (1, None)],
      crashed = None\<rparr>"
  by (simp add: run_defs signal_schedule_def Let_def)

lemma failure_run_trace:
  "Run (program_group (example_server (Some bind_error))) deliver failure_schedule
     (initial_world s0 t) =
     \<lparr>world =
        \<lparr>sig = \<lparr>ch_cap = 1, ch_buf = [], ch_closed = True\<rparr>,
         handlers = {os_Interrupt, SIGTERM}, watcher_pc = Receiving, srv = True,
         trace = t @ [Log LevelInfo ''caught interrupt'' None, Notify {os_Interrupt, SIGTERM}]\<rparr>,
      finished = [True, True], errors = [], pc = Returned (Some bind_error),
      completed = [(1, Some bind_error), (0, None)],
      interrupted = [(0, Some bind_error), (1, Some bind_error)],
      crashed = None\<rparr>"
  by (simp add: run_defs failure_schedule_def Let_def)

lemma example_options_valid:
  "ParseRequestURI (parse_rest (example_deps e)) (metricsQueryEndpoint example_options) =
     Inr (URL ''http://localhost:9091/api/v1/query'')"
  "ParseRequestURI (parse_rest (example_deps e)) (metricsWriteEndpoint example_options) =
     Inr (URL ''http://localhost:19291/api/v1/receive'')"
  "ParseDuration (example_deps e) (gracePeriod example_options) = Inr 5000000000"
  by (simp_all add: ParseRequestURI_def stringContainsCTLByte_def example_deps_def
        example_options_def default_options_def)

lemma example_deps_simps:
  "server (example_deps e) = example_server e"
  "maxprocs_Set (example_deps e) = None"
  "maxprocs_Set_log (example_deps e) = [''maxprocs: Leaving GOMAXPROCS=[4]: CPU quota undefined'']"
  "undo_log (example_deps e) =
     [''maxprocs: No GOMAXPROCS change to reset%!(EXTRA []interface {}=[])'']"
  "server_New (example_server e) cfg = False"
  by (simp_all add: example_deps_def example_server_def)

lemma example_main_signal:
  "main (example_deps None) example_options no_env signal_schedule =
     \<lparr>events =
        [NewLogger ''info'' ''logfmt'' ''observatorium'',
         NewTracer ''jaeger'' ''jaeger'' 0.1,
         SetTraceProvider, MaxprocsSet,
         Log LevelDebug ''maxprocs: Leaving GOMAXPROCS=[4]: CPU quota undefined'' None,
         MustRegister, MakeChan 1, GroupAdd,
         ServerNew \<lparr>cfg_listen = '':8080'', cfg_gracePeriod = 5000000000, cfg_profile = False,
                    cfg_metricQueryEndpoint = URL ''http://localhost:9091/api/v1/query'',
                    cfg_metricWriteEndpoint = URL ''http://localhost:19291/api/v1/receive'',
                    cfg_bufferCount = 2048, cfg_bufferSizeBytes = 32768\<rparr>,
         GroupAdd, Log LevelInfo ''starting observatorium'' None, GroupRun,
         Notify {os_Interrupt, SIGTERM}, Signalled SIGINT,
         Log LevelInfo ''caught interrupt'' None],
      status = Exited 0\<rparr>"
  unfolding main_valid [OF example_options_valid] main_serve_unfold
  by (simp add: example_deps_simps signal_run_trace startup_events_def serve_events_def
        loggerAdapter_def serve_config_def example_options_def default_options_def example_constants_def no_env_def)

lemma example_main_failure:
  "main (example_deps (Some bind_error)) example_options no_env failure_schedule =
     \<lparr>events =
        [NewLogger ''info'' ''logfmt'' ''observatorium'',
         NewTracer ''jaeger'' ''jaeger'' 0.1,
         SetTraceProvider, MaxprocsSet,
         Log LevelDebug ''maxprocs: Leaving GOMAXPROCS=[4]: CPU quota undefined'' None,
         MustRegister, MakeChan 1, GroupAdd,
         ServerNew \<lparr>cfg_listen = '':8080'', cfg_gracePeriod = 5000000000, cfg_profile = False,
                    cfg_metricQueryEndpoint = URL ''http://localhost:9091/api/v1/query'',
                    cfg_metricWriteEndpoint = URL ''http://localhost:19291/api/v1/receive'',
                    cfg_bufferCount = 2048, cfg_bufferSizeBytes = 32768\<rparr>,
         GroupAdd, Log LevelInfo ''starting observatorium'' None, GroupRun,
         Log LevelInfo ''caught interrupt'' None, Notify {os_Interrupt, SIGTERM},
         Log LevelError ''observatorium failed'' (Some bind_error)],
      status = Exited 1\<rparr>"
  unfolding main_valid [OF example_options_valid] main_serve_unfold
  by (simp add: example_deps_simps failure_run_trace startup_events_def serve_events_def
        loggerAdapter_def serve_config_def example_options_def default_options_def example_constants_def no_env_def)


text \<open>
  What the exit at main.go:154-159 does with the value of \<open>g.Run()\<close>: the status is 0 for
  nil and 1 for an error, which is logged, and the events end there.
\<close>

lemma main_after_Run:
  assumes "ParseRequestURI (parse_rest d) (metricsQueryEndpoint opts) = Inr q"
    and "ParseRequestURI (parse_rest d) (metricsWriteEndpoint opts) = Inr u"
    and "ParseDuration d (gracePeriod opts) = Inr g"
    and "s = Run (program_group (server d)) deliver sched
               (initial_world (server_New (server d) (serve_config opts getenv q u g))
                  (startup_events opts getenv @ serve_events d opts getenv q u g))"
    and "crashed s = None" and "pc s = Returned e"
  shows "main d opts getenv sched =
     \<lparr>events = trace (world s) @
        (case e of None \<Rightarrow> [] | Some err \<Rightarrow> [Log LevelError ''observatorium failed'' (Some err)]),
      status = Exited (case e of None \<Rightarrow> 0 | Some err \<Rightarrow> 1)\<rparr>"
  unfolding main_valid [OF assms(1-3)] main_serve_unfold
  using assms(5,6) unfolding assms(4) by (simp add: Let_def split: option.splits)

text \<open>
  Whenever \<open>main\<close> reached \<open>g.Run()\<close> and the process has exited with a status, none of the
  calls deferred at main.go:77, 80 and 113 has run.
\<close>

lemma main_exit_runs_no_deferred_call:
  assumes run: "GroupRun \<in> set (events (main d opts getenv sched))"
    and exit: "status (main d opts getenv sched) = Exited c"
  shows "c \<le> 1 \<and> set deferred_calls \<inter> set (events (main d opts getenv sched)) = {}"
proof (cases "isl (ParseRequestURI (parse_rest d) (metricsQueryEndpoint opts)) \<or>
           isl (ParseRequestURI (parse_rest d) (metricsWriteEndpoint opts)) \<or>
           isl (ParseDuration d (gracePeriod opts))")
  case True
  from main_invalid [OF True, of getenv sched] obtain msg err where
    M: "main d opts getenv sched =
       \<lparr>events = startup_events opts getenv @
          [Log LevelError msg (Some err), TracerClose, Log LevelInfo ''exiting'' None],
        status = Exited 0\<rparr>"
    by blast
  from run have False
    unfolding M by (simp add: startup_events_simps)
  then show ?thesis ..
next
  case False
  then obtain q u g where q: "ParseRequestURI (parse_rest d) (metricsQueryEndpoint opts) = Inr q"
    and u: "ParseRequestURI (parse_rest d) (metricsWriteEndpoint opts) = Inr u"
    and g: "ParseDuration d (gracePeriod opts) = Inr g"
    by (cases "ParseRequestURI (parse_rest d) (metricsQueryEndpoint opts)";
        cases "ParseRequestURI (parse_rest d) (metricsWriteEndpoint opts)";
        cases "ParseDuration d (gracePeriod opts)") auto
  note M = main_valid [OF q u g, of getenv sched]
  let ?S = "main_serve d opts getenv sched
      \<lparr>out = startup_events opts getenv,
       deferred = [TracerClose, Log LevelInfo ''exiting'' None]\<rparr> q u g"
  from exit have st: "status ?S = Exited c"
    unfolding M .
  obtain ext tail where
    ev': "events ?S =
       (startup_events opts getenv @ serve_events d opts getenv q u g) @ ext @ tail"
    and we: "list_all watcher_event ext"
    and tail': "(status ?S = Exited 0 \<and> tail = []) \<or>
         (\<exists>err. status ?S = Exited 1 \<and>
            tail = [Log LevelError ''observatorium failed'' (Some err)]) \<or>
         (\<exists>m. status ?S = Died (PanicMain m) \<and>
            tail = undo_events d @ [TracerClose, Log LevelInfo ''exiting'' None]) \<or>
         (\<exists>c. status ?S = Died c \<and> tail = []) \<or>
         (status ?S = StillRunning \<and> tail = [])"
    by (rule main_serve_shape [of d opts getenv sched "startup_events opts getenv"
           "[TracerClose, Log LevelInfo ''exiting'' None]" q u g])
  from ev' have ev: "events (main d opts getenv sched) =
       (startup_events opts getenv @ serve_events d opts getenv q u g) @ ext @ tail"
    unfolding M .
  from tail' have tail: "(c = 0 \<and> tail = []) \<or>
       (\<exists>err. c = 1 \<and> tail = [Log LevelError ''observatorium failed'' (Some err)])"
    unfolding st by auto
  from tail have c: "c \<le> 1"
    by auto
  from tail have t: "set deferred_calls \<inter> set tail = {}"
    by (auto simp add: deferred_calls_def)
  have "set deferred_calls \<inter> set (startup_events opts getenv) = {}"
    "set deferred_calls \<inter> set (serve_events d opts getenv q u g) = {}"
    "set deferred_calls \<inter> set ext = {}"
    by (simp_all add: deferred_calls_def startup_events_simps serve_events_simps
          watcher_events_plain [OF we])
  with t c show ?thesis
    unfolding ev by (simp add: Int_Un_distrib)
qed

section \<open>The exit of main\<close>

text \<open>
  Claim C4. For every outcome of \<open>Run\<close> the process exits with code 0 when the error is
  absent, and with code 1 after one error line when it is present, and this exit happens
  only after all deferred cleanup has executed. On the run below (valid endpoints, SIGINT
  after the watcher has subscribed, \<open>Run\<close> returns nil) the status is 0, as claimed, but
  the events of the process end with the watcher's interrupt: \<open>os.Exit\<close> at main.go:159
  runs none of the calls deferred at main.go:77, 80 and 113, so the tracer is never closed
  and the line "exiting" is never logged.
\<close>

theorem main_exits_before_deferred_cleanup:
  "main (example_deps None) example_options no_env signal_schedule =
     \<lparr>events =
        [NewLogger ''info'' ''logfmt'' ''observatorium'',
         NewTracer ''jaeger'' ''jaeger'' 0.1,
         SetTraceProvider, MaxprocsSet,
         Log LevelDebug ''maxprocs: Leaving GOMAXPROCS=[4]: CPU quota undefined'' None,
         MustRegister, MakeChan 1, GroupAdd,
         ServerNew \<lparr>cfg_listen = '':8080'', cfg_gracePeriod = 5000000000, cfg_profile = False,
                    cfg_metricQueryEndpoint = URL ''http://localhost:9091/api/v1/query'',
                    cfg_metricWriteEndpoint = URL ''http://localhost:19291/api/v1/receive'',
                    cfg_bufferCount = 2048, cfg_bufferSizeBytes = 32768\<rparr>,
         GroupAdd, Log LevelInfo ''starting observatorium'' None, GroupRun,
         Notify {os_Interrupt, SIGTERM}, Signalled SIGINT,
         Log LevelInfo ''caught interrupt'' None],
      status = Exited 0\<rparr> \<and>
   TracerClose \<notin> set (events (main (example_deps None) example_options no_env signal_schedule)) \<and>
   Log LevelInfo ''exiting'' None \<notin>
     set (events (main (example_deps None) example_options no_env signal_schedule)) \<and>
   MaxprocsUndo \<notin> set (events (main (example_deps None) example_options no_env signal_schedule))"
  unfolding example_main_signal by simp

section \<open>Invalid configuration\<close>




section \<open>The default endpoints\<close>

text \<open>
  Claim C10. With the default flag values the metrics query and write endpoints are empty
  strings, which fail URL validation; so in every run of the program in which
  \<open>--metrics.query.endpoint\<close> is left at its default, \<open>main\<close> logs a validation error and
  returns before the server is constructed and before \<open>g.Run()\<close> is called.
\<close>

theorem default_endpoints_fail_validation:
  "metricsQueryEndpoint (default_options k) = [] \<and>
   metricsWriteEndpoint (default_options k) = [] \<and>
   ParseRequestURI rest [] = Inl (UrlError ''parse'' [] (Error ''empty url'')) \<and>
   (metricsQueryEndpoint opts = metricsQueryEndpoint (default_options k) \<longrightarrow>
      main d opts getenv sched =
        \<lparr>events = startup_events opts getenv @
           [Log LevelError ''--metrics.query.endpoint is invalid''
              (Some (UrlError ''parse'' [] (Error ''empty url''))),
            TracerClose, Log LevelInfo ''exiting'' None],
         status = Exited 0\<rparr> \<and>
      \<not> list_ex is_ServerNew (events (main d opts getenv sched)) \<and>
      GroupRun \<notin> set (events (main d opts getenv sched)))"
proof -
  have e: "ParseRequestURI rest [] = Inl (UrlError ''parse'' [] (Error ''empty url''))" for rest
    by (simp add: ParseRequestURI_def stringContainsCTLByte_def)
  have q: "metricsQueryEndpoint (default_options k) = []"
    and w: "metricsWriteEndpoint (default_options k) = []"
    by (simp_all add: default_options_def)
  have "main d opts getenv sched =
        \<lparr>events = startup_events opts getenv @
           [Log LevelError ''--metrics.query.endpoint is invalid''
              (Some (UrlError ''parse'' [] (Error ''empty url''))),
            TracerClose, Log LevelInfo ''exiting'' None],
         status = Exited 0\<rparr> \<and>
      \<not> list_ex is_ServerNew (events (main d opts getenv sched)) \<and>
      GroupRun \<notin> set (events (main d opts getenv sched))"
    if "metricsQueryEndpoint opts = metricsQueryEndpoint (default_options k)"
  proof -
    from that q have "ParseRequestURI (parse_rest d) (metricsQueryEndpoint opts) =
        Inl (UrlError ''parse'' [] (Error ''empty url''))"
      by (simp add: e)
    from main_invalid_query [OF this, of getenv sched] show ?thesis
      by (simp add: startup_events_simps)
  qed
  with e q w show ?thesis
    by blast
qed

theorem default_endpoints_fail_validation_witness:
  "metricsQueryEndpoint (default_options example_constants) = [] \<and>
   metricsWriteEndpoint (default_options example_constants) = [] \<and>
   main (example_deps None) ((default_options example_constants)\<lparr>listen := '':9090''\<rparr>)
        no_env signal_schedule =
     \<lparr>events = startup_events ((default_options example_constants)\<lparr>listen := '':9090''\<rparr>) no_env @
        [Log LevelError ''--metrics.query.endpoint is invalid''
           (Some (UrlError ''parse'' [] (Error ''empty url''))),
         TracerClose, Log LevelInfo ''exiting'' None],
      status = Exited 0\<rparr> \<and>
   GroupRun \<notin> set (events (main (example_deps None)
       ((default_options example_constants)\<lparr>listen := '':9090''\<rparr>) no_env signal_schedule))"
proof -
  have "metricsQueryEndpoint ((default_options example_constants)\<lparr>listen := '':9090''\<rparr>) =
        metricsQueryEndpoint (default_options example_constants)"
    by simp
  with default_endpoints_fail_validation
          [of example_constants "parse_rest (example_deps None)"
              "(default_options example_constants)\<lparr>listen := '':9090''\<rparr>"
              "example_deps None" no_env signal_schedule]
  show ?thesis
    by blast
qed

section \<open>The signal channel and the subscription\<close>

text \<open>
  Claim C7. The signal watcher's channel is created with a buffer of capacity at least 1
  before the subscription is registered on it, and the subscription covers exactly SIGINT
  (\<open>os.Interrupt\<close>) and SIGTERM. In every run of \<open>main\<close>, a call of \<open>signal.Notify\<close> is for
  these two signals and comes after \<open>make(chan os.Signal, 1)\<close>; in every state of every
  run of the program the channel has capacity 1 and the process is subscribed to nothing
  or to exactly these two signals; and the first move of the watcher's \<open>run\<close>, from the
  state in which \<open>main\<close> starts the group, subscribes to exactly these two on the empty
  channel of capacity 1.
\<close>

theorem signal_channel_buffered_before_Notify:
  "(events (main d opts getenv sched) = pre @ Notify S # post \<longrightarrow>
      S = {os_Interrupt, SIGTERM} \<and> MakeChan 1 \<in> set pre) \<and>
   ch_cap (sig (world (Run (program_group impl) deliver sched' (initial_world s0 t0)))) = 1 \<and>
   (handlers (world (Run (program_group impl) deliver sched' (initial_world s0 t0))) = {} \<or>
    handlers (world (Run (program_group impl) deliver sched' (initial_world s0 t0))) =
      {os_Interrupt, SIGTERM}) \<and>
   watcher_execute (initial_world s0 t0) =
     Continue \<lparr>sig = make_chan 1, handlers = {os_Interrupt, SIGTERM}, watcher_pc = Receiving,
               srv = s0, trace = t0 @ [Notify {os_Interrupt, SIGTERM}]\<rparr>"
proof -
  have "S = {os_Interrupt, SIGTERM} \<and> MakeChan 1 \<in> set pre"
    if ev: "events (main d opts getenv sched) = pre @ Notify S # post"
  proof -
    obtain A ext tail where
      shape: "events (main d opts getenv sched) = A @ ext @ tail"
      and A: "\<not> list_ex is_Notify A" and we: "list_all watcher_event ext"
      and tail: "\<not> list_ex is_Notify tail"
      and mk: "ext = [] \<or> MakeChan 1 \<in> set A"
      by (rule main_events_shape)
    from shape ev have "A @ ext @ tail = pre @ Notify S # post"
      by simp
    from Notify_within [OF this A tail]
    have n: "Notify S \<in> set ext" and sub: "set A \<subseteq> set pre"
      by simp_all
    from n we have "watcher_event (Notify S)"
      unfolding list_all_iff by blast
    moreover from n mk sub have "MakeChan 1 \<in> set pre"
      by auto
    ultimately show ?thesis
      by simp
  qed
  moreover
  have "sig_inv (world (Run (program_group impl) deliver sched' (initial_world s0 t0)))"
    by (rule sig_inv_Run)
  then have "ch_cap (sig (world (Run (program_group impl) deliver sched' (initial_world s0 t0)))) = 1 \<and>
   (handlers (world (Run (program_group impl) deliver sched' (initial_world s0 t0))) = {} \<or>
    handlers (world (Run (program_group impl) deliver sched' (initial_world s0 t0))) =
      {os_Interrupt, SIGTERM})"
    unfolding sig_inv_def by (simp split: watcher_pc.splits)
  moreover
  have "watcher_execute (initial_world s0 t0) =
     Continue \<lparr>sig = make_chan 1, handlers = {os_Interrupt, SIGTERM}, watcher_pc = Receiving,
               srv = s0, trace = t0 @ [Notify {os_Interrupt, SIGTERM}]\<rparr>"
    by (simp add: watcher_execute_def initial_world_def)
  ultimately show ?thesis
    by blast
qed

theorem signal_channel_buffered_before_Notify_witness:
  "events (main (example_deps None) example_options no_env signal_schedule) =
     [NewLogger ''info'' ''logfmt'' ''observatorium'',
      NewTracer ''jaeger'' ''jaeger'' 0.1,
      SetTraceProvider, MaxprocsSet,
      Log LevelDebug ''maxprocs: Leaving GOMAXPROCS=[4]: CPU quota undefined'' None,
      MustRegister, MakeChan 1, GroupAdd,
      ServerNew \<lparr>cfg_listen = '':8080'', cfg_gracePeriod = 5000000000, cfg_profile = False,
                 cfg_metricQueryEndpoint = URL ''http://localhost:9091/api/v1/query'',
                 cfg_metricWriteEndpoint = URL ''http://localhost:19291/api/v1/receive'',
                 cfg_bufferCount = 2048, cfg_bufferSizeBytes = 32768\<rparr>,
      GroupAdd, Log LevelInfo ''starting observatorium'' None, GroupRun] @
     Notify {os_Interrupt, SIGTERM} #
     [Signalled SIGINT, Log LevelInfo ''caught interrupt'' None] \<and>
   MakeChan 1 \<in> set
     [NewLogger ''info'' ''logfmt'' ''observatorium'',
      NewTracer ''jaeger'' ''jaeger'' 0.1,
      SetTraceProvider, MaxprocsSet,
      Log LevelDebug ''maxprocs: Leaving GOMAXPROCS=[4]: CPU quota undefined'' None,
      MustRegister, MakeChan 1, GroupAdd,
      ServerNew \<lparr>cfg_listen = '':8080'', cfg_gracePeriod = 5000000000, cfg_profile = False,
                 cfg_metricQueryEndpoint = URL ''http://localhost:9091/api/v1/query'',
                 cfg_metricWriteEndpoint = URL ''http://localhost:19291/api/v1/receive'',
                 cfg_bufferCount = 2048, cfg_bufferSizeBytes = 32768\<rparr>,
      GroupAdd, Log LevelInfo ''starting observatorium'' None, GroupRun] \<and>
   ch_cap (sig (world (Run (program_group (example_server None)) deliver signal_schedule
                        (initial_world False [])))) = 1 \<and>
   handlers (world (Run (program_group (example_server None)) deliver signal_schedule
                      (initial_world False []))) = {os_Interrupt, SIGTERM} \<and>
   watcher_execute (initial_world False []) =
     Continue \<lparr>sig = make_chan 1, handlers = {os_Interrupt, SIGTERM}, watcher_pc = Receiving,
               srv = False, trace = [] @ [Notify {os_Interrupt, SIGTERM}]\<rparr>"
proof -
  have ev: "events (main (example_deps None) example_options no_env signal_schedule) =
     [NewLogger ''info'' ''logfmt'' ''observatorium'',
      NewTracer ''jaeger'' ''jaeger'' 0.1,
      SetTraceProvider, MaxprocsSet,
      Log LevelDebug ''maxprocs: Leaving GOMAXPROCS=[4]: CPU quota undefined'' None,
      MustRegister, MakeChan 1, GroupAdd,
      ServerNew \<lparr>cfg_listen = '':8080'', cfg_gracePeriod = 5000000000, cfg_profile = False,
                 cfg_metricQueryEndpoint = URL ''http://localhost:9091/api/v1/query'',
                 cfg_metricWriteEndpoint = URL ''http://localhost:19291/api/v1/receive'',
                 cfg_bufferCount = 2048, cfg_bufferSizeBytes = 32768\<rparr>,
      GroupAdd, Log LevelInfo ''starting observatorium'' None, GroupRun] @
     Notify {os_Interrupt, SIGTERM} #
     [Signalled SIGINT, Log LevelInfo ''caught interrupt'' None]"
    unfolding example_main_signal by simp
  have h: "handlers (world (Run (program_group (example_server None)) deliver signal_schedule
                      (initial_world False []))) = {os_Interrupt, SIGTERM}"
    unfolding signal_run by simp
  from signal_channel_buffered_before_Notify
    [of "example_deps None" example_options no_env signal_schedule _ "{os_Interrupt, SIGTERM}" _
        "example_server None" signal_schedule False "[]", THEN conjunct1, rule_format, OF ev]
       signal_channel_buffered_before_Notify
    [of "example_deps None" example_options no_env signal_schedule "[]" "{}" "[]"
        "example_server None" signal_schedule False "[]", THEN conjunct2, THEN conjunct1]
       signal_channel_buffered_before_Notify
    [of "example_deps None" example_options no_env signal_schedule "[]" "{}" "[]"
        "example_server None" signal_schedule False "[]",
     THEN conjunct2, THEN conjunct2, THEN conjunct2]
       ev h
  show ?thesis
    by blast
qed

end
